theory Spec2Isabelle
  imports Main "HOL-Library.Monad_Syntax" "HOL-Library.Char_ord" "HOL-Library.List_Lexorder"
begin

section \<open>Calendar dates as the booking API uses them\<close>

text \<open>
  The booking API (\<^verbatim>\<open>src/index.ts\<close>) computes with JavaScript \<^verbatim>\<open>Date\<close> objects. The
  calendar fields of a date are read (\<^verbatim>\<open>getFullYear\<close>, \<^verbatim>\<open>getMonth\<close>,
  \<^verbatim>\<open>getDate\<close>, \<^verbatim>\<open>getDay\<close>) and written (\<^verbatim>\<open>setDate\<close>, \<^verbatim>\<open>setMonth\<close>), and two dates
  are compared by their time value. A \<open>jsdate\<close> is a calendar day of the proleptic
  Gregorian calendar, months counted from 0 as in JavaScript, and \<open>day_number\<close> is its
  ECMAScript day number (days since 1970-01-01). The time value of a \<^verbatim>\<open>Date\<close> is
  built from the day number, the time of day and the time zone in the section on
  JavaScript values. The model covers the dates a \<^verbatim>\<open>Date\<close> can hold (years -271821 to
  275760); outside that range JavaScript produces an Invalid Date, which the theorems
  exclude by hypothesis.
\<close>

record jsdate =
  year :: int
  month :: int
  day :: int

definition leap :: "int \<Rightarrow> bool" where
  "leap y \<longleftrightarrow> (y mod 4 = 0 \<and> y mod 100 \<noteq> 0) \<or> y mod 400 = 0"

definition DaysInMonth :: "int \<Rightarrow> int \<Rightarrow> int" where
  "DaysInMonth y m =
     (if m = 1 then (if leap y then 29 else 28)
      else if m = 3 \<or> m = 5 \<or> m = 8 \<or> m = 10 then 30
      else 31)"

text \<open>ECMAScript \<^verbatim>\<open>DayFromYear\<close>: the day number of January 1st of year \<open>y\<close>.\<close>

definition DayFromYear :: "int \<Rightarrow> int" where
  "DayFromYear y =
     365 * (y - 1970) + (y - 1969) div 4 - (y - 1901) div 100 + (y - 1601) div 400"

definition days_before_month :: "int \<Rightarrow> int \<Rightarrow> int" where
  "days_before_month y m =
     (if m = 0 then 0 else if m = 1 then 31
      else (if leap y then 1 else 0) +
        (if m = 2 then 59 else if m = 3 then 90 else if m = 4 then 120
         else if m = 5 then 151 else if m = 6 then 181 else if m = 7 then 212
         else if m = 8 then 243 else if m = 9 then 273 else if m = 10 then 304
         else 334))"

definition day_number :: "jsdate \<Rightarrow> int" where
  "day_number d = DayFromYear (year d) + days_before_month (year d) (month d) + day d - 1"

text \<open>\<^verbatim>\<open>getDay()\<close>: ECMAScript \<^verbatim>\<open>WeekDay(t) = (Day(t) + 4) mod 7\<close>, 0 is Sunday.\<close>

definition getDay :: "jsdate \<Rightarrow> int" where
  "getDay d = (day_number d + 4) mod 7"

definition getMonth :: "jsdate \<Rightarrow> int" where
  "getMonth d = month d"

definition getDate :: "jsdate \<Rightarrow> int" where
  "getDate d = day d"

definition getFullYear :: "jsdate \<Rightarrow> int" where
  "getFullYear d = year d"

definition next_day :: "jsdate \<Rightarrow> jsdate" where
  "next_day d =
     (if day d < DaysInMonth (year d) (month d) then d\<lparr>day := day d + 1\<rparr>
      else if month d < 11 then \<lparr>year = year d, month = month d + 1, day = 1\<rparr>
      else \<lparr>year = year d + 1, month = 0, day = 1\<rparr>)"

definition prev_day :: "jsdate \<Rightarrow> jsdate" where
  "prev_day d =
     (if 1 < day d then d\<lparr>day := day d - 1\<rparr>
      else if 0 < month d then
        \<lparr>year = year d, month = month d - 1, day = DaysInMonth (year d) (month d - 1)\<rparr>
      else \<lparr>year = year d - 1, month = 11, day = 31\<rparr>)"

text \<open>
  ECMAScript \<^verbatim>\<open>MakeDay(year, month, date)\<close>: the month is carried into the year, and
  the day of the month counts on (or back) from the first of that month, so that day 0
  is the last day of the month before and day 32 falls in the month after.
\<close>

definition MakeDay :: "int \<Rightarrow> int \<Rightarrow> int \<Rightarrow> jsdate" where
  "MakeDay y m dt =
     (let first = \<lparr>year = y + m div 12, month = m mod 12, day = 1\<rparr>
      in if 1 \<le> dt then (next_day ^^ nat (dt - 1)) first
         else (prev_day ^^ nat (1 - dt)) first)"

text \<open>
  \<^verbatim>\<open>new Date(year, month, date)\<close>: the constructor reads a year from 0 to 99 as
  1900 + year, then applies \<^verbatim>\<open>MakeDay\<close>.
\<close>

definition full_year :: "int \<Rightarrow> int" where
  "full_year y = (if 0 \<le> y \<and> y \<le> 99 then 1900 + y else y)"

definition new_Date :: "int \<Rightarrow> int \<Rightarrow> int \<Rightarrow> jsdate" where
  "new_Date y m dt = MakeDay (full_year y) m dt"

definition setDate :: "jsdate \<Rightarrow> int \<Rightarrow> jsdate" where
  "setDate d dt = MakeDay (year d) (month d) dt"

definition setMonth :: "jsdate \<Rightarrow> int \<Rightarrow> jsdate" where
  "setMonth d m = MakeDay (year d) m (day d)"

section \<open>The recurring-date calculator\<close>

text \<open>
  \<^verbatim>\<open>getNthWeekdayOfMonth(year, month, weekNumber, weekday)\<close>. Its three
  \<^verbatim>\<open>while\<close> loops are the three functions below; a loop that does not end has the
  value \<open>None\<close>.
\<close>

partial_function (option) seek_forward :: "jsdate \<Rightarrow> int \<Rightarrow> jsdate option" where
  "seek_forward date weekday =
     (if getDay date \<noteq> weekday then seek_forward (setDate date (getDate date + 1)) weekday
      else Some date)"

partial_function (option) seek_backward :: "jsdate \<Rightarrow> int \<Rightarrow> jsdate option" where
  "seek_backward date weekday =
     (if getDay date \<noteq> weekday then seek_backward (setDate date (getDate date - 1)) weekday
      else Some date)"

partial_function (option) collect_weekly :: "jsdate \<Rightarrow> int \<Rightarrow> jsdate list \<Rightarrow> jsdate list option" where
  "collect_weekly date m dates =
     (if getMonth date = m then collect_weekly (setDate date (getDate date + 7)) m (dates @ [date])
      else Some dates)"

declare seek_forward.simps [code]
declare seek_backward.simps [code]
declare collect_weekly.simps [code]

definition getNthWeekdayOfMonth :: "int \<Rightarrow> int \<Rightarrow> int \<Rightarrow> int \<Rightarrow> jsdate list option" where
  "getNthWeekdayOfMonth y m weekNumber weekday =
     (if weekNumber = 0 then
        do { date \<leftarrow> seek_forward (new_Date y m 1) weekday;
             collect_weekly date m [] }
      else if weekNumber = 5 then
        do { date \<leftarrow> seek_backward (new_Date y (m + 1) 0) weekday;
             Some [date] }
      else
        do { date \<leftarrow> seek_forward (new_Date y m 1) weekday;
             let date' = setDate date (getDate date + (weekNumber - 1) * 7)
             in if getMonth date' \<noteq> m then Some [] else Some [date'] })"

text \<open>The weekday of a day of a month, from the day number of the month's day 0.\<close>

definition month_offset :: "int \<Rightarrow> int \<Rightarrow> int" where
  "month_offset y m = DayFromYear y + days_before_month y m + 3"

text \<open>
  The years in which every day is a date that a \<^verbatim>\<open>Date\<close> object can hold.
\<close>

definition in_js_range :: "int \<Rightarrow> bool" where
  "in_js_range y \<longleftrightarrow> -271820 \<le> y \<and> y \<le> 275759"

text \<open>
  What the specification calls the occurrences of a weekday in a month: the days of the
  month \<^verbatim>\<open>new Date(y, m, 1)\<close> starts, in ascending order, that fall on the weekday; and
  the Nth of them, as a list that is empty when there are fewer than N.
\<close>

definition month_days :: "int \<Rightarrow> int \<Rightarrow> jsdate list" where
  "month_days y m =
     map (\<lambda>k. \<lparr>year = full_year y, month = m, day = k\<rparr>) [1..DaysInMonth (full_year y) m]"

definition occurrences :: "int \<Rightarrow> int \<Rightarrow> int \<Rightarrow> jsdate list" where
  "occurrences y m weekday = filter (\<lambda>d. getDay d = weekday) (month_days y m)"

definition nth_occurrence :: "int \<Rightarrow> int \<Rightarrow> int \<Rightarrow> int \<Rightarrow> jsdate list" where
  "nth_occurrence y m n weekday =
     (let occ = occurrences y m weekday
      in if nat n \<le> length occ then [occ ! (nat n - 1)] else [])"

section \<open>JavaScript values and strings\<close>

text \<open>
  A request field, a query parameter or a Stripe metadata entry is a string that may be
  absent (\<^verbatim>\<open>undefined\<close>): a \<open>string option\<close>. \<^verbatim>\<open>if (x)\<close> and \<^verbatim>\<open>x || y\<close> test
  truthiness: an absent or empty string is falsy.
\<close>

definition truthy :: "string option \<Rightarrow> bool" where
  "truthy v = (case v of None \<Rightarrow> False | Some s \<Rightarrow> s \<noteq> [])"

definition is_digit :: "char \<Rightarrow> bool" where
  "is_digit c \<longleftrightarrow> c \<in> set ''0123456789''"

definition digit_val :: "char \<Rightarrow> int" where
  "digit_val c = int (of_char c) - 48"

definition digits_val :: "string \<Rightarrow> int" where
  "digits_val ds = foldl (\<lambda>acc c. 10 * acc + digit_val c) 0 ds"

definition is_space :: "char \<Rightarrow> bool" where
  "is_space c \<longleftrightarrow> c \<in> {CHR '' '', CHR 0x09, CHR 0x0A, CHR 0x0B, CHR 0x0C, CHR 0x0D}"

text \<open>
  \<^verbatim>\<open>parseInt(s, 10)\<close>: leading white space and a sign are skipped, the longest prefix
  of decimal digits is read, and the result is \<^verbatim>\<open>NaN\<close> (\<open>None\<close>) when there is no digit.
\<close>

definition parseInt :: "string \<Rightarrow> int option" where
  "parseInt s =
     (let t = dropWhile is_space s;
          neg = (t \<noteq> [] \<and> hd t = CHR ''-'');
          u = (if t \<noteq> [] \<and> (hd t = CHR ''-'' \<or> hd t = CHR ''+'') then tl t else t);
          ds = takeWhile is_digit u
      in if ds = [] then None else Some (if neg then - digits_val ds else digits_val ds))"

text \<open>Decimal printing of a number, as a template literal does it.\<close>

fun show_nat :: "nat \<Rightarrow> string" where
  "show_nat n =
     (if n < 10 then [char_of (48 + n)] else show_nat (n div 10) @ [char_of (48 + n mod 10)])"

definition show_int :: "int \<Rightarrow> string" where
  "show_int i = (if i < 0 then CHR ''-'' # show_nat (nat (- i)) else show_nat (nat i))"

text \<open>\<^verbatim>\<open>String(n).padStart(2, '0')\<close>.\<close>

definition pad2 :: "int \<Rightarrow> string" where
  "pad2 i = (let s = show_int i in if length s < 2 then replicate (2 - length s) CHR ''0'' @ s else s)"

text \<open>
  The date string built in the availability handler:
  \<^verbatim>\<open>`${y}-${m}-${day}`\<close> with month and day padded to two digits.
\<close>

definition format_date :: "jsdate \<Rightarrow> string" where
  "format_date d = show_int (getFullYear d) @ ''-'' @ pad2 (getMonth d + 1) @ ''-'' @ pad2 (getDate d)"

text \<open>
  \<^verbatim>\<open>new Date(s)\<close> for a date string. The API exchanges dates as \<^verbatim>\<open>YYYY-MM-DD\<close>; such
  a string denotes midnight UTC of that day, with the month in 01..12 and the day in
  01..31 (V8 carries a day beyond the end of the month into the next month). Every other
  string is taken as an Invalid Date (\<open>None\<close>), whose comparisons are all false.
  The \<open>jsdate\<close> returned is the day in UTC.
\<close>

definition parse_date :: "string \<Rightarrow> jsdate option" where
  "parse_date s =
     (if length s = 10 \<and> s ! 4 = CHR ''-'' \<and> s ! 7 = CHR ''-''
         \<and> list_all is_digit (take 4 s) \<and> list_all is_digit (take 2 (drop 5 s))
         \<and> list_all is_digit (drop 8 s)
      then
        (let y = digits_val (take 4 s); m = digits_val (take 2 (drop 5 s)); d = digits_val (drop 8 s)
         in if 1 \<le> m \<and> m \<le> 12 \<and> 1 \<le> d \<and> d \<le> 31 then Some (MakeDay y (m - 1) d) else None)
      else None)"

text \<open>
  Time values, in minutes since the epoch; \<^verbatim>\<open><=\<close>, \<^verbatim>\<open>>=\<close> and \<^verbatim>\<open>>\<close> on two
  \<^verbatim>\<open>Date\<close> objects compare them. A parsed \<^verbatim>\<open>YYYY-MM-DD\<close> string is midnight UTC of
  its day. The calendar fields of a \<^verbatim>\<open>Date\<close> are read and written in the local time
  of the server, which is \<open>tz\<close> minutes ahead of UTC (negative west of Greenwich); the
  offset is taken to be the same all year (no daylight saving time). A \<^verbatim>\<open>Date\<close> whose
  local fields are the day \<open>d\<close> and whose local time of day is \<open>minutes\<close> has the time
  value \<open>local_time tz d minutes\<close>; \<^verbatim>\<open>new Date(y, m, d)\<close> is at local time of day 0.
\<close>

definition utc_midnight :: "jsdate \<Rightarrow> int" where
  "utc_midnight d = 1440 * day_number d"

definition local_time :: "int \<Rightarrow> jsdate \<Rightarrow> int \<Rightarrow> int" where
  "local_time tz d minutes = 1440 * day_number d + minutes - tz"

text \<open>
  The local fields of the \<^verbatim>\<open>Date\<close> that is midnight UTC of the day \<open>d\<close>: the local
  clock shows \<open>1440 * day_number d + tz\<close> minutes, that is the day \<open>tz div 1440\<close> days
  after \<open>d\<close> (the day before \<open>d\<close> west of Greenwich) at \<open>tz mod 1440\<close> minutes past
  midnight.
\<close>

definition shift_days :: "int \<Rightarrow> jsdate \<Rightarrow> jsdate" where
  "shift_days k d = (if 0 \<le> k then (next_day ^^ nat k) d else (prev_day ^^ nat (- k)) d)"

definition local_date :: "int \<Rightarrow> jsdate \<Rightarrow> jsdate" where
  "local_date tz d = shift_days (tz div 1440) d"

definition local_minutes :: "int \<Rightarrow> int" where
  "local_minutes tz = tz mod 1440"

text \<open>
  Comparison of two parsed dates, both at midnight UTC; an Invalid Date compares false.
\<close>

definition date_gt :: "jsdate option \<Rightarrow> jsdate option \<Rightarrow> bool" where
  "date_gt a b = (case (a, b) of (Some x, Some y) \<Rightarrow> day_number x > day_number y | _ \<Rightarrow> False)"

text \<open>
  \<^verbatim>\<open>toLocaleDateString('fr-FR')\<close>: day/month/year. The handler applies it to a parsed
  date string, and the model prints the day that string denotes: the local day of its
  midnight UTC on a server in UTC or ahead of it.
\<close>

definition toLocaleDateString_fr :: "jsdate \<Rightarrow> string" where
  "toLocaleDateString_fr d = pad2 (getDate d) @ ''/'' @ pad2 (getMonth d + 1) @ ''/'' @ show_int (getFullYear d)"

section \<open>The store\<close>

text \<open>
  The tables of \<^verbatim>\<open>database.ts\<close> that the booking logic reads and writes. A booking row
  keeps the columns the handlers read; the other columns of the \<^verbatim>\<open>INSERT\<close> (phone,
  address, postal code, bin count, message, consent flags and dates, variant) are bound
  and checked but not kept, since nothing modelled here reads them back.
\<close>

record booking =
  b_id :: int
  b_name :: string
  b_email :: string
  b_city :: string
  b_service_type :: string
  b_preferred_date :: string
  b_preferred_time :: string
  b_status :: string
  b_stripe_payment_intent_id :: "string option"
  b_stripe_session_id :: "string option"
  b_payment_status :: "string option"

record quote =
  q_id :: int
  q_stripe_payment_intent_id :: "string option"
  q_stripe_session_id :: "string option"
  q_payment_status :: "string option"

record service =
  s_service_id :: string
  s_name :: string
  s_passage1_week :: "int option"
  s_passage1_day :: "int option"
  s_passage2_week :: "int option"
  s_passage2_day :: "int option"
  s_max_bookings_per_day :: "int option"

record service_city =
  c_city_name :: string
  c_enabled :: bool
  c_cutoff_date :: "string option"
  c_passage1_week :: "int option"
  c_passage1_day :: "int option"
  c_passage2_week :: "int option"
  c_passage2_day :: "int option"

record audit_log =
  a_action :: string
  a_entity_type :: string
  a_entity_id :: "string option"

text \<open>
  An email handed to the mail transport. All mails go to the operator mailbox
  (\<^verbatim>\<open>smtpTo\<close>); the subject and text are French sentences, of which the model keeps
  which of the two notices it is, the reply-to address, and the customer name and date
  the text names. \<open>DateFullNotice\<close> is the mail with subject
  \<^verbatim>\<open>Reservation annulee - Date complete\<close> whose text says that the booking could not be
  created because the date is full and that the payment will be refunded;
  \<open>BookingConfirmed\<close> is the mail \<^verbatim>\<open>RESERVATION CONFIRMEE\<close>.
\<close>

datatype mail_kind = DateFullNotice | BookingConfirmed

record mail =
  m_kind :: mail_kind
  m_reply_to :: "string option"
  m_name :: "string option"
  m_date :: "string option"

text \<open>
  The state of the world a handler runs in: the tables, the \<^verbatim>\<open>AUTOINCREMENT\<close> counter
  of the bookings table, and the mails sent so far.
\<close>

record state =
  bookings :: "booking list"
  next_booking_id :: int
  quotes :: "quote list"
  services :: "service list"
  service_cities :: "service_city list"
  config :: "(string \<times> string) list"
  audit_logs :: "audit_log list"
  outbox :: "mail list"

text \<open>The process environment: whether SMTP credentials and Stripe keys are set.\<close>

record env =
  smtp_configured :: bool
  stripe_configured :: bool
  webhook_secret_configured :: bool
  now :: string

subsection \<open>Prepared statements\<close>

datatype sqlval = SqlNull | SqlText string | SqlInt int

datatype db_error = RangeError | SQLITE_CONSTRAINT_NOTNULL | SQLITE_CONSTRAINT_UNIQUE

definition to_sql :: "string option \<Rightarrow> sqlval" where
  "to_sql v = (case v of None \<Rightarrow> SqlNull | Some s \<Rightarrow> SqlText s)"

text \<open>\<^verbatim>\<open>x || null\<close> as a bound parameter.\<close>

definition or_null :: "string option \<Rightarrow> sqlval" where
  "or_null v = (if truthy v then to_sql v else SqlNull)"

definition sql_text :: "sqlval \<Rightarrow> string option" where
  "sql_text v = (case v of SqlNull \<Rightarrow> None | SqlText s \<Rightarrow> Some s | SqlInt i \<Rightarrow> Some (show_int i))"

definition getConfig :: "state \<Rightarrow> string \<Rightarrow> string option" where
  "getConfig st k = map_of (config st) k"

definition getServiceByServiceId :: "state \<Rightarrow> string \<Rightarrow> service option" where
  "getServiceByServiceId st sid = find (\<lambda>s. s_service_id s = sid) (services st)"

text \<open>\<^verbatim>\<open>SELECT * FROM service_cities WHERE city_name = ? AND enabled = 1\<close>; an absent
  parameter is bound as \<^verbatim>\<open>NULL\<close> and matches no row.\<close>

definition checkServiceCity :: "state \<Rightarrow> string option \<Rightarrow> service_city option" where
  "checkServiceCity st name =
     (case name of None \<Rightarrow> None
      | Some n \<Rightarrow> find (\<lambda>c. c_city_name c = n \<and> c_enabled c) (service_cities st))"

definition getBookingById :: "state \<Rightarrow> int option \<Rightarrow> booking option" where
  "getBookingById st i =
     (case i of None \<Rightarrow> None | Some n \<Rightarrow> find (\<lambda>b. b_id b = n) (bookings st))"

definition is_paid_active :: "booking \<Rightarrow> bool" where
  "is_paid_active b \<longleftrightarrow> b_status b \<noteq> ''cancelled'' \<and> b_payment_status b = Some ''paid''"

definition countPaidBookingsByDate :: "state \<Rightarrow> string option \<Rightarrow> nat" where
  "countPaidBookingsByDate st d =
     length (filter (\<lambda>b. Some (b_preferred_date b) = d \<and> is_paid_active b) (bookings st))"

definition countPaidBookingsByDateAndService :: "state \<Rightarrow> string option \<Rightarrow> string option \<Rightarrow> nat" where
  "countPaidBookingsByDateAndService st d s =
     length (filter (\<lambda>b. Some (b_preferred_date b) = d \<and> Some (b_service_type b) = s \<and> is_paid_active b)
       (bookings st))"

text \<open>
  \<^verbatim>\<open>SELECT preferred_date, COUNT(*) ... GROUP BY preferred_date\<close>: one row per date
  that has at least one matching booking, in ascending order of the date.
\<close>

definition group_by_date :: "booking list \<Rightarrow> (string \<times> nat) list" where
  "group_by_date rows =
     map (\<lambda>d. (d, length (filter (\<lambda>b. b_preferred_date b = d) rows)))
       (sort (remdups (map b_preferred_date rows)))"

definition getPaidBookingsByDateRange :: "state \<Rightarrow> string \<Rightarrow> string \<Rightarrow> (string \<times> nat) list" where
  "getPaidBookingsByDateRange st start end =
     group_by_date (filter (\<lambda>b. b_preferred_date b \<ge> start \<and> b_preferred_date b \<le> end
                                \<and> is_paid_active b) (bookings st))"

definition getPaidBookingsByDateRangeAndService ::
  "state \<Rightarrow> string \<Rightarrow> string \<Rightarrow> string \<Rightarrow> (string \<times> nat) list" where
  "getPaidBookingsByDateRangeAndService st start end s =
     group_by_date (filter (\<lambda>b. b_preferred_date b \<ge> start \<and> b_preferred_date b \<le> end
                                \<and> b_service_type b = s \<and> is_paid_active b) (bookings st))"

definition checkBookingConflict :: "state \<Rightarrow> string option \<Rightarrow> string option \<Rightarrow> booking option" where
  "checkBookingConflict st d t =
     find (\<lambda>b. Some (b_preferred_date b) = d \<and> Some (b_preferred_time b) = t
                \<and> b_status b \<noteq> ''cancelled'') (bookings st)"

definition updateBookingStatus :: "string \<Rightarrow> int \<Rightarrow> state \<Rightarrow> state" where
  "updateBookingStatus status i st =
     st\<lparr>bookings := map (\<lambda>b. if b_id b = i then b\<lparr>b_status := status\<rparr> else b) (bookings st)\<rparr>"

definition updateBookingPayment :: "string option \<Rightarrow> string option \<Rightarrow> string \<Rightarrow> int \<Rightarrow> state \<Rightarrow> state" where
  "updateBookingPayment intent session pstatus i st =
     st\<lparr>bookings := map (\<lambda>b. if b_id b = i
                               then b\<lparr>b_stripe_payment_intent_id := intent,
                                      b_stripe_session_id := session,
                                      b_payment_status := Some pstatus\<rparr>
                               else b) (bookings st)\<rparr>"

definition updateQuotePayment :: "string option \<Rightarrow> string option \<Rightarrow> string \<Rightarrow> int \<Rightarrow> state \<Rightarrow> state" where
  "updateQuotePayment intent session pstatus i st =
     st\<lparr>quotes := map (\<lambda>q. if q_id q = i
                             then q\<lparr>q_stripe_payment_intent_id := intent,
                                    q_stripe_session_id := session,
                                    q_payment_status := Some pstatus\<rparr>
                             else q) (quotes st)\<rparr>"

definition getQuoteById :: "state \<Rightarrow> int option \<Rightarrow> quote option" where
  "getQuoteById st i =
     (case i of None \<Rightarrow> None | Some n \<Rightarrow> find (\<lambda>q. q_id q = n) (quotes st))"

text \<open>
  \<^verbatim>\<open>insertBooking.run(...)\<close>. The statement has 20 placeholders: name, email, phone,
  city, address, postal_code, service_type, bin_count, preferred_date, preferred_time,
  message, stripe_session_id, payment_status, rgpd_consent, marketing_consent,
  consent_date, consent_ip, variant_id, subscription_contract_consent,
  subscription_contract_date. better-sqlite3 refuses to run a statement bound with
  another number of values (\<^verbatim>\<open>RangeError: Too few parameter values were provided\<close>). The
  table declares name, email, phone, city, service_type, preferred_date and
  preferred_time \<^verbatim>\<open>NOT NULL\<close>, and \<^verbatim>\<open>UNIQUE(preferred_date, preferred_time)\<close> over all
  its rows. A new row gets the next \<^verbatim>\<open>AUTOINCREMENT\<close> id and the default status
  \<^verbatim>\<open>'pending'\<close>.
\<close>

definition not_null_columns :: "nat list" where
  "not_null_columns = [0, 1, 2, 3, 6, 8, 9]"

definition insertBooking :: "sqlval list \<Rightarrow> state \<Rightarrow> db_error + (int \<times> state)" where
  "insertBooking ps st =
     (if length ps \<noteq> 20 then Inl RangeError
      else if \<exists>i \<in> set not_null_columns. ps ! i = SqlNull then Inl SQLITE_CONSTRAINT_NOTNULL
      else if \<exists>b \<in> set (bookings st).
                Some (b_preferred_date b) = sql_text (ps ! 8) \<and> Some (b_preferred_time b) = sql_text (ps ! 9)
        then Inl SQLITE_CONSTRAINT_UNIQUE
      else
        (let row = \<lparr>b_id = next_booking_id st,
                    b_name = the (sql_text (ps ! 0)),
                    b_email = the (sql_text (ps ! 1)),
                    b_city = the (sql_text (ps ! 3)),
                    b_service_type = the (sql_text (ps ! 6)),
                    b_preferred_date = the (sql_text (ps ! 8)),
                    b_preferred_time = the (sql_text (ps ! 9)),
                    b_status = ''pending'',
                    b_stripe_payment_intent_id = None,
                    b_stripe_session_id = sql_text (ps ! 11),
                    b_payment_status = sql_text (ps ! 12)\<rparr>
         in Inr (next_booking_id st,
                 st\<lparr>bookings := bookings st @ [row], next_booking_id := next_booking_id st + 1\<rparr>)))"

text \<open>\<^verbatim>\<open>createAuditLog\<close>: appends an entry; its own failures are caught and logged.\<close>

definition createAuditLog :: "string \<Rightarrow> string \<Rightarrow> string option \<Rightarrow> state \<Rightarrow> state" where
  "createAuditLog action entity_type entity_id st =
     st\<lparr>audit_logs := audit_logs st @
           [\<lparr>a_action = action, a_entity_type = entity_type, a_entity_id = entity_id\<rparr>]\<rparr>"

text \<open>\<^verbatim>\<open>transporter.sendMail\<close>: the attempt is recorded; a transport failure is caught
  and logged by every caller.\<close>

definition sendMail :: "mail \<Rightarrow> state \<Rightarrow> state" where
  "sendMail m st = st\<lparr>outbox := outbox st @ [m]\<rparr>"

subsection \<open>The effective per-day capacity\<close>

text \<open>
  The block that the webhook, the payment verification, the availability query and the
  booking request each repeat: the global limit is
  \<^verbatim>\<open>parseInt(maxBookingsConfig?.value || "5", 10)\<close>, and a service that defines
  \<^verbatim>\<open>max_bookings_per_day\<close> replaces it and scopes the count to that service. The
  result is the limit (\<open>None\<close> for \<^verbatim>\<open>NaN\<close>) and \<^verbatim>\<open>useServiceLimit\<close>.
\<close>

definition resolve_limit :: "state \<Rightarrow> string option \<Rightarrow> int option \<times> bool" where
  "resolve_limit st serviceType =
     (let cfg = getConfig st ''max_bookings_per_day'';
          general = parseInt (if truthy cfg then the cfg else ''5'')
      in if truthy serviceType then
           (case getServiceByServiceId st (the serviceType) of
              None \<Rightarrow> (general, False)
            | Some serviceData \<Rightarrow>
                (case s_max_bookings_per_day serviceData of
                   None \<Rightarrow> (general, False)
                 | Some n \<Rightarrow> (Some n, True)))
         else (general, False))"

text \<open>\<^verbatim>\<open>currentCount >= maxBookingsPerDay\<close>; a comparison with \<^verbatim>\<open>NaN\<close> is false.\<close>

definition limit_reached :: "nat \<Rightarrow> int option \<Rightarrow> bool" where
  "limit_reached n lim = (case lim of None \<Rightarrow> False | Some l \<Rightarrow> int n \<ge> l)"

definition current_count :: "state \<Rightarrow> bool \<Rightarrow> string option \<Rightarrow> string option \<Rightarrow> nat" where
  "current_count st useServiceLimit d serviceType =
     (if useServiceLimit then countPaidBookingsByDateAndService st d serviceType
      else countPaidBookingsByDate st d)"

section \<open>HTTP responses\<close>

text \<open>
  A response is its status code and what its JSON body says. The error texts are
  French sentences; each is named here by a constructor.
\<close>

datatype message =
    StartEndRequired
  | CityNotServed
  | CutoffExceeded string string
  | MissingFields
  | DateFull
  | SlotTaken
  | SaveFailed
  | StripeNotConfigured
  | WebhookSignature
  | BookingNotFound
  | ConflictDetected
  | CreateFailed
  | IncompleteMetadata
  | SessionIdRequired
  | TestModeDisabled
  | PaymentNotCompleted
  | ServerError

datatype payload =
    Failure message
  | FullAndAllowed "string list" "string list option"
  | BookingCreated int
  | Received
  | ReceivedIgnored
  | ReceivedError message
  | PaymentValidated int
  | PaymentAlreadyValidated int

record response =
  http_status :: nat
  body :: payload

section \<open>GET /api/bookings/available-dates\<close>

record dates_query =
  startDate :: "string option"
  endDate :: "string option"
  city :: "string option"
  serviceType :: "string option"

record passage_config =
  passage1_week :: "int option"
  passage1_day :: "int option"
  passage2_week :: "int option"
  passage2_day :: "int option"

text \<open>The dates whose paid count reaches the limit.\<close>

definition full_dates :: "state \<Rightarrow> string \<Rightarrow> string \<Rightarrow> string option \<Rightarrow> string list" where
  "full_dates st start end svc =
     (let (maxBookingsPerDay, useServiceLimit) = resolve_limit st svc;
          paidBookingsByDate =
            (if useServiceLimit then getPaidBookingsByDateRangeAndService st start end (the svc)
             else getPaidBookingsByDateRange st start end)
      in map fst (filter (\<lambda>b. limit_reached (snd b) maxBookingsPerDay) paidBookingsByDate))"

text \<open>Priority 1: the passage days of the service, when it defines a passage week.\<close>

definition service_passage :: "state \<Rightarrow> string option \<Rightarrow> passage_config option" where
  "service_passage st svc =
     (if truthy svc then
        (case getServiceByServiceId st (the svc) of
           None \<Rightarrow> None
         | Some serviceData \<Rightarrow>
             if s_passage1_week serviceData \<noteq> None \<or> s_passage2_week serviceData \<noteq> None
             then Some \<lparr>passage1_week = s_passage1_week serviceData,
                        passage1_day = s_passage1_day serviceData,
                        passage2_week = s_passage2_week serviceData,
                        passage2_day = s_passage2_day serviceData\<rparr>
             else None)
      else None)"

text \<open>Priority 2: the passage days of the city, when the service has none.\<close>

definition resolve_passage :: "state \<Rightarrow> string option \<Rightarrow> string option \<Rightarrow> passage_config option" where
  "resolve_passage st svc cty =
     (case service_passage st svc of
        Some cfg \<Rightarrow> Some cfg
      | None \<Rightarrow>
          if truthy cty then
            (case checkServiceCity st cty of
               None \<Rightarrow> None
             | Some cityData \<Rightarrow>
                 Some \<lparr>passage1_week = c_passage1_week cityData,
                       passage1_day = c_passage1_day cityData,
                       passage2_week = c_passage2_week cityData,
                       passage2_day = c_passage2_day cityData\<rparr>)
          else None)"

definition push_new :: "string \<Rightarrow> string list \<Rightarrow> string list" where
  "push_new s allowed = (if s \<in> set allowed then allowed else allowed @ [s])"

text \<open>
  The test \<^verbatim>\<open>date >= start && date <= end\<close> on a passage date: the calculator builds
  it with \<^verbatim>\<open>new Date(year, month, 1)\<close>, at midnight local time, and the two bounds
  are parsed date strings, at midnight UTC.
\<close>

definition in_range :: "int \<Rightarrow> jsdate \<Rightarrow> jsdate \<Rightarrow> jsdate \<Rightarrow> bool" where
  "in_range tz start end date \<longleftrightarrow>
     utc_midnight start \<le> local_time tz date 0 \<and> local_time tz date 0 \<le> utc_midnight end"

text \<open>The \<^verbatim>\<open>for (const date of dates)\<close> loop of one passage.\<close>

definition add_dates :: "int \<Rightarrow> jsdate \<Rightarrow> jsdate \<Rightarrow> jsdate list \<Rightarrow> string list \<Rightarrow> string list" where
  "add_dates tz start end dates allowed =
     foldl (\<lambda>acc date. if in_range tz start end date
                         then push_new (format_date date) acc else acc) allowed dates"

definition passage_step ::
  "int \<Rightarrow> int option \<Rightarrow> int option \<Rightarrow> int \<Rightarrow> int \<Rightarrow> jsdate \<Rightarrow> jsdate \<Rightarrow> string list
   \<Rightarrow> string list option" where
  "passage_step tz week wday y m start end allowed =
     (case week of
        None \<Rightarrow> Some allowed
      | Some w \<Rightarrow>
          (case wday of
             None \<Rightarrow> Some allowed
           | Some d \<Rightarrow>
               do { dates \<leftarrow> getNthWeekdayOfMonth y m w d;
                    Some (add_dates tz start end dates allowed) }))"

text \<open>
  The \<^verbatim>\<open>while (current <= end)\<close> loop over the months of the range; it ends with
  \<^verbatim>\<open>current.setMonth(current.getMonth() + 1); current.setDate(1)\<close>. \<^verbatim>\<open>current\<close>
  starts as a copy of \<^verbatim>\<open>start\<close>, midnight UTC of the start date: its local fields are
  the day \<open>local_date tz start\<close>, and its local time of day is \<open>local_minutes tz\<close>, which
  \<^verbatim>\<open>setMonth\<close> and \<^verbatim>\<open>setDate\<close> keep. The loop carries the local day of
  \<^verbatim>\<open>current\<close>.
\<close>

definition next_month_start :: "jsdate \<Rightarrow> jsdate" where
  "next_month_start current = setDate (setMonth current (getMonth current + 1)) 1"

partial_function (option) month_loop ::
  "int \<Rightarrow> passage_config \<Rightarrow> jsdate \<Rightarrow> jsdate \<Rightarrow> jsdate \<Rightarrow> string list \<Rightarrow> string list option" where
  "month_loop tz cfg start end current allowed =
     (if local_time tz current (local_minutes tz) \<le> utc_midnight end then
        do { a1 \<leftarrow> passage_step tz (passage1_week cfg) (passage1_day cfg)
                   (getFullYear current) (getMonth current) start end allowed;
             a2 \<leftarrow> passage_step tz (passage2_week cfg) (passage2_day cfg)
                   (getFullYear current) (getMonth current) start end a1;
             month_loop tz cfg start end (next_month_start current) a2 }
      else Some allowed)"

definition allowed_dates :: "int \<Rightarrow> state \<Rightarrow> dates_query \<Rightarrow> string list option" where
  "allowed_dates tz st q =
     (case resolve_passage st (serviceType q) (city q) of
        None \<Rightarrow> Some []
      | Some cfg \<Rightarrow>
          (case parse_date (the (startDate q)) of
             None \<Rightarrow> Some []
           | Some start \<Rightarrow>
               (case parse_date (the (endDate q)) of
                  None \<Rightarrow> Some []
                | Some end \<Rightarrow> month_loop tz cfg start end (local_date tz start) [])))"

text \<open>
  The handler, on a server \<open>tz\<close> minutes ahead of UTC; \<open>None\<close> when it never answers
  because a loop does not end.
\<close>

definition available_dates :: "int \<Rightarrow> state \<Rightarrow> dates_query \<Rightarrow> response option" where
  "available_dates tz st q =
     (if \<not> truthy (startDate q) \<or> \<not> truthy (endDate q)
      then Some \<lparr>http_status = 400, body = Failure StartEndRequired\<rparr>
      else
        do { allowedDates \<leftarrow> allowed_dates tz st q;
             Some \<lparr>http_status = 200,
                   body = FullAndAllowed
                     (full_dates st (the (startDate q)) (the (endDate q)) (serviceType q))
                     (if length allowedDates > 0 then Some allowedDates else None)\<rparr> })"

section \<open>POST /api/booking\<close>

record booking_request =
  r_name :: "string option"
  r_email :: "string option"
  r_phone :: "string option"
  r_city :: "string option"
  r_address :: "string option"
  r_postalCode :: "string option"
  r_serviceType :: "string option"
  r_binCount :: "string option"
  r_preferredDate :: "string option"
  r_preferredTime :: "string option"
  r_message :: "string option"
  r_rgpdConsent :: bool
  r_marketingConsent :: bool
  r_ip :: "string option"

text \<open>
  The first \<^verbatim>\<open>try\<close> block: the city must be in the list of enabled cities, and a
  requested date after the city's cutoff date is refused. \<open>Some\<close> is the early
  response.
\<close>

definition city_gate :: "state \<Rightarrow> booking_request \<Rightarrow> response option" where
  "city_gate st r =
     (case checkServiceCity st (r_city r) of
        None \<Rightarrow> Some \<lparr>http_status = 400, body = Failure CityNotServed\<rparr>
      | Some cityCheck \<Rightarrow>
          if truthy (c_cutoff_date cityCheck) \<and> truthy (r_preferredDate r) then
            (let cutoffDate = parse_date (the (c_cutoff_date cityCheck));
                 requestedDate = parse_date (the (r_preferredDate r))
             in if date_gt requestedDate cutoffDate
                then Some \<lparr>http_status = 400,
                           body = Failure (CutoffExceeded (the (r_city r))
                                    (toLocaleDateString_fr (the cutoffDate)))\<rparr>
                else None)
          else None)"

definition missing_fields :: "state \<Rightarrow> booking_request \<Rightarrow> bool" where
  "missing_fields st r =
     (let timeSelectionEnabled = (getConfig st ''time_selection_enabled'' \<noteq> Some ''false'')
      in \<not> truthy (r_name r) \<or> \<not> truthy (r_email r) \<or> \<not> truthy (r_phone r) \<or> \<not> truthy (r_city r)
         \<or> \<not> truthy (r_serviceType r) \<or> \<not> truthy (r_preferredDate r)
         \<or> (timeSelectionEnabled \<and> \<not> truthy (r_preferredTime r)))"

definition bool_sql :: "bool \<Rightarrow> sqlval" where
  "bool_sql b = SqlInt (if b then 1 else 0)"

definition time_or_default :: "string option \<Rightarrow> sqlval" where
  "time_or_default t = (if truthy t then to_sql t else SqlText ''09:00'')"

text \<open>The values \<^verbatim>\<open>POST /api/booking\<close> binds to \<^verbatim>\<open>insertBooking\<close>, in its order.\<close>

definition booking_params :: "env \<Rightarrow> booking_request \<Rightarrow> sqlval list" where
  "booking_params e r =
     [to_sql (r_name r), to_sql (r_email r), to_sql (r_phone r), to_sql (r_city r),
      or_null (r_address r), or_null (r_postalCode r), to_sql (r_serviceType r),
      or_null (r_binCount r), to_sql (r_preferredDate r), time_or_default (r_preferredTime r),
      or_null (r_message r), SqlNull, SqlText ''unpaid'',
      bool_sql (r_rgpdConsent r), bool_sql (r_marketingConsent r), SqlText (now e),
      or_null (r_ip r), SqlNull]"

definition api_booking :: "env \<Rightarrow> booking_request \<Rightarrow> state \<Rightarrow> response \<times> state" where
  "api_booking e r st =
     (case city_gate st r of
        Some resp \<Rightarrow> (resp, st)
      | None \<Rightarrow>
          if missing_fields st r then (\<lparr>http_status = 400, body = Failure MissingFields\<rparr>, st)
          else
            (let (maxBookingsPerDay, useServiceLimit) = resolve_limit st (r_serviceType r);
                 currentCount = current_count st useServiceLimit (r_preferredDate r) (r_serviceType r)
             in if limit_reached currentCount maxBookingsPerDay
                then (\<lparr>http_status = 409, body = Failure DateFull\<rparr>, st)
                else if truthy (r_preferredTime r)
                        \<and> checkBookingConflict st (r_preferredDate r) (r_preferredTime r) \<noteq> None
                then (\<lparr>http_status = 409, body = Failure SlotTaken\<rparr>, st)
                else
                  (case insertBooking (booking_params e r) st of
                     Inl dbErr \<Rightarrow>
                       if dbErr = SQLITE_CONSTRAINT_UNIQUE
                       then (\<lparr>http_status = 409, body = Failure SlotTaken\<rparr>, st)
                       else (\<lparr>http_status = 500, body = Failure SaveFailed\<rparr>, st)
                   | Inr (bookingId, st1) \<Rightarrow>
                       (let st2 = createAuditLog ''CREATE'' ''booking'' (Some (show_int bookingId)) st1;
                            st3 = updateBookingStatus ''awaiting_payment'' bookingId st2
                        in (\<lparr>http_status = 200, body = BookingCreated bookingId\<rparr>, st3)))))"

section \<open>The allowed dates, in the words of the specification\<close>

text \<open>
  The contract of the recurring-date calculator: week 0 is every occurrence of the
  weekday in the month, week 5 the last one, and a week from 1 to 4 the occurrence of
  that number, when there is one.
\<close>

definition weekday_dates :: "int \<Rightarrow> int \<Rightarrow> int \<Rightarrow> int \<Rightarrow> jsdate list" where
  "weekday_dates y m week weekday =
     (if week = 0 then occurrences y m weekday
      else if week = 5 then [last (occurrences y m weekday)]
      else nth_occurrence y m week weekday)"

definition passage_dates1 :: "passage_config \<Rightarrow> int \<Rightarrow> int \<Rightarrow> jsdate list" where
  "passage_dates1 cfg y m =
     (case passage1_week cfg of None \<Rightarrow> []
      | Some w \<Rightarrow> (case passage1_day cfg of None \<Rightarrow> [] | Some d \<Rightarrow> weekday_dates y m w d))"

definition passage_dates2 :: "passage_config \<Rightarrow> int \<Rightarrow> int \<Rightarrow> jsdate list" where
  "passage_dates2 cfg y m =
     (case passage2_week cfg of None \<Rightarrow> []
      | Some w \<Rightarrow> (case passage2_day cfg of None \<Rightarrow> [] | Some d \<Rightarrow> weekday_dates y m w d))"

text \<open>A month is numbered by \<open>12 * year + month\<close>.\<close>

definition month_index :: "jsdate \<Rightarrow> int" where
  "month_index d = 12 * year d + month d"

text \<open>
  The passage dates of all months from the month of the start date to the month of the
  end date that lie within the two dates, as days of the calendar.
\<close>

definition range_dates :: "passage_config \<Rightarrow> jsdate \<Rightarrow> jsdate \<Rightarrow> jsdate list" where
  "range_dates cfg start end =
     filter (\<lambda>d. day_number start \<le> day_number d \<and> day_number d \<le> day_number end)
       (concat (map (\<lambda>i. passage_dates1 cfg (i div 12) (i mod 12) @ passage_dates2 cfg (i div 12) (i mod 12))
          [month_index start..month_index end]))"

text \<open>
  The same passage dates, kept when their midnight in the local time of a server \<open>tz\<close>
  minutes ahead of UTC lies between midnight UTC of the start date and midnight UTC of the
  end date.
\<close>

definition window_dates :: "int \<Rightarrow> passage_config \<Rightarrow> jsdate \<Rightarrow> jsdate \<Rightarrow> jsdate list" where
  "window_dates tz cfg start end =
     filter (in_range tz start end)
       (concat (map (\<lambda>i. passage_dates1 cfg (i div 12) (i mod 12) @ passage_dates2 cfg (i div 12) (i mod 12))
          [month_index start..month_index end]))"

text \<open>A date as \<^verbatim>\<open>new Date\<close> yields it: a day of a month.\<close>

definition valid_date :: "jsdate \<Rightarrow> bool" where
  "valid_date d \<longleftrightarrow> 0 \<le> month d \<and> month d \<le> 11 \<and> 1 \<le> day d \<and> day d \<le> DaysInMonth (year d) (month d)"

text \<open>A passage rule the calculator is specified for: week 0..5, weekday 0..6.\<close>

definition valid_passage :: "int option \<Rightarrow> int option \<Rightarrow> bool" where
  "valid_passage week wday =
     (case week of None \<Rightarrow> True
      | Some w \<Rightarrow> (case wday of None \<Rightarrow> True
                   | Some d \<Rightarrow> 0 \<le> w \<and> w \<le> 5 \<and> 0 \<le> d \<and> d \<le> 6))"

definition valid_config :: "passage_config \<Rightarrow> bool" where
  "valid_config cfg \<longleftrightarrow> valid_passage (passage1_week cfg) (passage1_day cfg)
                        \<and> valid_passage (passage2_week cfg) (passage2_day cfg)"

text \<open>Day \<open>k\<close> of the month after month \<open>m\<close> of year \<open>y\<close>.\<close>

definition following_month :: "int \<Rightarrow> int \<Rightarrow> int \<Rightarrow> jsdate" where
  "following_month y m k = (if m = 11 then \<lparr>year = y + 1, month = 0, day = k\<rparr>
                            else \<lparr>year = y, month = m + 1, day = k\<rparr>)"

text \<open>The first day of the month numbered \<open>i\<close>.\<close>

definition first_of_month :: "int \<Rightarrow> jsdate" where
  "first_of_month i = \<lparr>year = i div 12, month = i mod 12, day = 1\<rparr>"

text \<open>
  The day of the month of a date exists in the month after: \<^verbatim>\<open>setMonth\<close> to that
  month keeps the day. From the 31st of a month followed by a month of 30 days, or from
  the 29th, 30th or 31st of January, it does not.
\<close>

definition next_month_has_day :: "jsdate \<Rightarrow> bool" where
  "next_month_has_day d \<longleftrightarrow>
     day d \<le> DaysInMonth (year d + (month d + 1) div 12) ((month d + 1) mod 12)"

text \<open>
  One round of the loop over the months, for the month numbered \<open>i\<close>, and the rounds
  for a list of months: the dates of passage 1, then of passage 2, that lie in the range
  are appended when they are new.
\<close>

definition month_step ::
  "int \<Rightarrow> passage_config \<Rightarrow> jsdate \<Rightarrow> jsdate \<Rightarrow> int \<Rightarrow> string list \<Rightarrow> string list" where
  "month_step tz cfg start end i allowed =
     add_dates tz start end (passage_dates2 cfg (i div 12) (i mod 12))
       (add_dates tz start end (passage_dates1 cfg (i div 12) (i mod 12)) allowed)"

definition months_fold ::
  "int \<Rightarrow> passage_config \<Rightarrow> jsdate \<Rightarrow> jsdate \<Rightarrow> int list \<Rightarrow> string list \<Rightarrow> string list" where
  "months_fold tz cfg start end months allowed =
     foldl (\<lambda>acc i. month_step tz cfg start end i acc) allowed months"

section \<open>Payment confirmation\<close>

text \<open>
  A Stripe checkout session as the handlers read it. The metadata is a table of strings;
  \<open>meta s k\<close> is \<^verbatim>\<open>session.metadata?.k\<close>.
\<close>

record session =
  sess_id :: string
  livemode :: bool
  payment_intent :: "string option"
  sess_payment_status :: "string option"
  sess_status :: "string option"
  metadata :: "(string \<times> string) list"

datatype event = CheckoutSessionCompleted session | OtherEvent string

text \<open>What a handler did with the request: it answered, or it threw.\<close>

datatype outcome = Responded response | Threw

definition meta :: "session \<Rightarrow> string \<Rightarrow> string option" where
  "meta s k = map_of (metadata s) k"

definition test_payment_ignored :: "state \<Rightarrow> session \<Rightarrow> bool" where
  "test_payment_ignored st s =
     (let isTestMode = (livemode s = False);
          testModeEnabled = (getConfig st ''test_mode_enabled'' = Some ''true'')
      in isTestMode \<and> \<not> testModeEnabled)"

definition is_true :: "string option \<Rightarrow> bool" where
  "is_true v \<longleftrightarrow> v = Some ''true''"

definition variant_param :: "string option \<Rightarrow> sqlval" where
  "variant_param v =
     (if truthy v then (case parseInt (the v) of None \<Rightarrow> SqlNull | Some i \<Rightarrow> SqlInt i) else SqlNull)"

text \<open>The values both payment handlers bind to \<^verbatim>\<open>insertBooking\<close>, in its order.\<close>

definition payment_params :: "env \<Rightarrow> session \<Rightarrow> sqlval list" where
  "payment_params e s =
     [to_sql (meta s ''bookingName''), to_sql (meta s ''bookingEmail''),
      to_sql (meta s ''bookingPhone''), to_sql (meta s ''bookingCity''),
      or_null (meta s ''bookingAddress''), or_null (meta s ''bookingPostalCode''),
      to_sql (meta s ''bookingServiceType''), or_null (meta s ''bookingBinCount''),
      to_sql (meta s ''bookingPreferredDate''), time_or_default (meta s ''bookingPreferredTime''),
      or_null (meta s ''bookingMessage''), SqlText (sess_id s), SqlText ''paid'',
      bool_sql (is_true (meta s ''bookingRgpdConsent'')),
      bool_sql (is_true (meta s ''bookingMarketingConsent'')),
      SqlText (now e), SqlNull, variant_param (meta s ''variantId''),
      bool_sql (is_true (meta s ''bookingSubscriptionContractConsent'')),
      (if is_true (meta s ''bookingSubscriptionContractConsent'') then SqlText (now e) else SqlNull)]"

text \<open>\<^verbatim>\<open>session.payment_intent as string || null\<close>.\<close>

definition intent_or_null :: "session \<Rightarrow> string option" where
  "intent_or_null s = (if truthy (payment_intent s) then payment_intent s else None)"

definition confirmation_mail :: "booking \<Rightarrow> mail" where
  "confirmation_mail booking =
     \<lparr>m_kind = BookingConfirmed, m_reply_to = Some (b_email booking),
      m_name = Some (b_name booking), m_date = Some (b_preferred_date booking)\<rparr>"

definition date_full_mail :: "session \<Rightarrow> mail" where
  "date_full_mail s =
     \<lparr>m_kind = DateFullNotice, m_reply_to = meta s ''bookingEmail'',
      m_name = meta s ''bookingName'', m_date = meta s ''bookingPreferredDate''\<rparr>"

subsection \<open>POST /api/stripe/webhook\<close>

text \<open>
  The end of the booking branch: the row is read again, and the confirmation email is
  sent when SMTP credentials are set. \<open>booking\<close> is the row the branch holds (read
  before the updates in the existing-booking flow); a missing row makes the
  \<^verbatim>\<open>try\<close> around the email catch a \<^verbatim>\<open>TypeError\<close>, and a missing row on the second
  read throws out of the handler.
\<close>

definition webhook_finish :: "env \<Rightarrow> session \<Rightarrow> int \<Rightarrow> booking option \<Rightarrow> state \<Rightarrow> outcome \<times> state" where
  "webhook_finish e s bookingId booking st =
     (case getBookingById st (Some bookingId) of
        None \<Rightarrow> (Threw, st)
      | Some updatedBooking \<Rightarrow>
          (let st' = (if smtp_configured e then
                        (case booking of None \<Rightarrow> st | Some b \<Rightarrow> sendMail (confirmation_mail b) st)
                      else st)
           in (Responded \<lparr>http_status = 200, body = Received\<rparr>, st')))"

text \<open>The flow that creates the booking once the payment is made.\<close>

definition webhook_create :: "env \<Rightarrow> session \<Rightarrow> state \<Rightarrow> outcome \<times> state" where
  "webhook_create e s st =
     (let (maxBookingsPerDay, useServiceLimit) = resolve_limit st (meta s ''bookingServiceType'');
          currentCount = current_count st useServiceLimit (meta s ''bookingPreferredDate'')
                           (meta s ''bookingServiceType'')
      in if limit_reached currentCount maxBookingsPerDay
         then (Responded \<lparr>http_status = 200, body = ReceivedError DateFull\<rparr>,
               if smtp_configured e then sendMail (date_full_mail s) st else st)
         else if truthy (meta s ''bookingPreferredTime'')
                 \<and> checkBookingConflict st (meta s ''bookingPreferredDate'')
                      (meta s ''bookingPreferredTime'') \<noteq> None
         then (Responded \<lparr>http_status = 200, body = ReceivedError ConflictDetected\<rparr>, st)
         else
           (case insertBooking (payment_params e s) st of
              Inl dbErr \<Rightarrow> (Responded \<lparr>http_status = 200, body = ReceivedError CreateFailed\<rparr>, st)
            | Inr (newBookingId, st1) \<Rightarrow>
                (let st2 = createAuditLog ''STATUS_CHANGE'' ''booking'' (Some (show_int newBookingId)) st1;
                     st3 = updateBookingStatus ''pending'' newBookingId st2;
                     st4 = updateBookingPayment (intent_or_null s) (Some (sess_id s)) ''paid''
                             newBookingId st3
                 in webhook_finish e s newBookingId (getBookingById st4 (Some newBookingId)) st4)))"

definition webhook_booking :: "env \<Rightarrow> session \<Rightarrow> state \<Rightarrow> outcome \<times> state" where
  "webhook_booking e s st =
     (if truthy (meta s ''bookingId'') then
        (case getBookingById st (parseInt (the (meta s ''bookingId''))) of
           None \<Rightarrow> (Responded \<lparr>http_status = 200, body = ReceivedError BookingNotFound\<rparr>, st)
         | Some booking \<Rightarrow>
             (let bookingId = b_id booking;
                  st1 = updateBookingPayment (intent_or_null s) (Some (sess_id s)) ''paid'' bookingId st;
                  st2 = updateBookingStatus ''pending'' bookingId st1
              in webhook_finish e s bookingId (Some booking) st2))
      else if truthy (meta s ''bookingName'') \<and> truthy (meta s ''bookingPreferredDate'')
      then webhook_create e s st
      else (Responded \<lparr>http_status = 200, body = ReceivedError IncompleteMetadata\<rparr>, st))"

definition webhook_quote :: "session \<Rightarrow> state \<Rightarrow> outcome \<times> state" where
  "webhook_quote s st =
     (case getQuoteById st (parseInt (the (meta s ''quoteId''))) of
        None \<Rightarrow> (Responded \<lparr>http_status = 200, body = Received\<rparr>, st)
      | Some quote \<Rightarrow>
          (Responded \<lparr>http_status = 200, body = Received\<rparr>,
           updateQuotePayment (intent_or_null s) (Some (sess_id s)) ''paid'' (q_id quote) st))"

text \<open>
  The handler. \<open>signature_ok\<close> is whether \<^verbatim>\<open>stripe.webhooks.constructEvent\<close> accepts
  the request and yields the event.
\<close>

definition stripe_webhook :: "env \<Rightarrow> bool \<Rightarrow> event \<Rightarrow> state \<Rightarrow> outcome \<times> state" where
  "stripe_webhook e signature_ok ev st =
     (if \<not> stripe_configured e \<or> \<not> webhook_secret_configured e
      then (Responded \<lparr>http_status = 503, body = Failure StripeNotConfigured\<rparr>, st)
      else if \<not> signature_ok
      then (Responded \<lparr>http_status = 400, body = Failure WebhookSignature\<rparr>, st)
      else
        (case ev of
           OtherEvent t \<Rightarrow> (Responded \<lparr>http_status = 200, body = Received\<rparr>, st)
         | CheckoutSessionCompleted s \<Rightarrow>
             if test_payment_ignored st s
             then (Responded \<lparr>http_status = 200, body = ReceivedIgnored\<rparr>, st)
             else if meta s ''type'' = Some ''booking'' then webhook_booking e s st
             else if meta s ''type'' = Some ''quote'' \<and> truthy (meta s ''quoteId'')
             then webhook_quote s st
             else (Responded \<lparr>http_status = 200, body = Received\<rparr>, st)))"

subsection \<open>POST /api/stripe/verify-payment\<close>

text \<open>
  The end of the handler: a booking that is not yet paid is validated and the
  confirmation email sent; one that is already paid is left as it is.
\<close>

definition verify_finish :: "env \<Rightarrow> session \<Rightarrow> int \<Rightarrow> booking option \<Rightarrow> state \<Rightarrow> response \<times> state" where
  "verify_finish e s finalBookingId booking st =
     (case booking of
        None \<Rightarrow> (\<lparr>http_status = 500, body = Failure ServerError\<rparr>, st)
      | Some b \<Rightarrow>
          if b_payment_status b \<noteq> Some ''paid'' then
            (let st1 = updateBookingPayment (intent_or_null s) (Some (sess_id s)) ''paid''
                         finalBookingId st;
                 st2 = (if b_status b = ''awaiting_payment''
                        then updateBookingStatus ''pending'' finalBookingId st1 else st1);
                 st3 = (if smtp_configured e then sendMail (confirmation_mail b) st2 else st2)
             in (\<lparr>http_status = 200, body = PaymentValidated finalBookingId\<rparr>, st3))
          else (\<lparr>http_status = 200, body = PaymentAlreadyValidated finalBookingId\<rparr>, st))"

definition verify_create :: "env \<Rightarrow> session \<Rightarrow> state \<Rightarrow> response \<times> state" where
  "verify_create e s st =
     (let (maxBookingsPerDay, useServiceLimit) = resolve_limit st (meta s ''bookingServiceType'');
          currentCount = current_count st useServiceLimit (meta s ''bookingPreferredDate'')
                           (meta s ''bookingServiceType'')
      in if limit_reached currentCount maxBookingsPerDay
         then (\<lparr>http_status = 200, body = Failure DateFull\<rparr>, st)
         else if truthy (meta s ''bookingPreferredTime'')
                 \<and> checkBookingConflict st (meta s ''bookingPreferredDate'')
                      (meta s ''bookingPreferredTime'') \<noteq> None
         then (\<lparr>http_status = 200, body = Failure ConflictDetected\<rparr>, st)
         else
           (case insertBooking (payment_params e s) st of
              Inl dbErr \<Rightarrow> (\<lparr>http_status = 500, body = Failure CreateFailed\<rparr>, st)
            | Inr (finalBookingId, st1) \<Rightarrow>
                (let st2 = updateBookingStatus ''pending'' finalBookingId st1;
                     st3 = updateBookingPayment (intent_or_null s) (Some (sess_id s)) ''paid''
                             finalBookingId st2
                 in verify_finish e s finalBookingId (getBookingById st3 (Some finalBookingId)) st3)))"

text \<open>
  The handler. \<open>retrieved\<close> is what \<^verbatim>\<open>stripe.checkout.sessions.retrieve(sessionId)\<close>
  yields, \<open>None\<close> when it throws.
\<close>

definition verify_payment :: "env \<Rightarrow> string option \<Rightarrow> session option \<Rightarrow> state \<Rightarrow> response \<times> state" where
  "verify_payment e sessionId retrieved st =
     (if \<not> truthy sessionId
      then (\<lparr>http_status = 400, body = Failure SessionIdRequired\<rparr>, st)
      else if \<not> stripe_configured e
      then (\<lparr>http_status = 503, body = Failure StripeNotConfigured\<rparr>, st)
      else
        (case retrieved of
           None \<Rightarrow> (\<lparr>http_status = 500, body = Failure ServerError\<rparr>, st)
         | Some s \<Rightarrow>
             if test_payment_ignored st s
             then (\<lparr>http_status = 200, body = Failure TestModeDisabled\<rparr>, st)
             else if sess_payment_status s = Some ''paid'' \<or> sess_status s = Some ''complete'' then
               (if truthy (meta s ''bookingId'') then
                  (case getBookingById st (parseInt (the (meta s ''bookingId''))) of
                     None \<Rightarrow> (\<lparr>http_status = 404, body = Failure BookingNotFound\<rparr>, st)
                   | Some booking \<Rightarrow> verify_finish e s (b_id booking) (Some booking) st)
                else if truthy (meta s ''bookingName'') \<and> truthy (meta s ''bookingPreferredDate'')
                then verify_create e s st
                else (\<lparr>http_status = 400, body = Failure IncompleteMetadata\<rparr>, st))
             else (\<lparr>http_status = 200, body = Failure PaymentNotCompleted\<rparr>, st)))"

section \<open>A sample deployment\<close>

text \<open>
  Concrete data for the worked instances below: one enabled city with a cutoff date, a
  service with a third-Wednesday passage and its own limit of one booking a day, a
  service whose own limit is zero, a general limit of five, time selection switched off,
  and one paid booking.
\<close>

definition example_env :: env where
  "example_env = \<lparr>smtp_configured = True, stripe_configured = True,
                   webhook_secret_configured = True, now = ''2025-01-01T08:00:00.000Z''\<rparr>"

definition lyon :: service_city where
  "lyon = \<lparr>c_city_name = ''Lyon'', c_enabled = True, c_cutoff_date = Some ''2025-06-30'',
            c_passage1_week = None, c_passage1_day = None,
            c_passage2_week = None, c_passage2_day = None\<rparr>"

definition cleaning :: service where
  "cleaning = \<lparr>s_service_id = ''cleaning'', s_name = ''Nettoyage de poubelles'',
                s_passage1_week = Some 3, s_passage1_day = Some 3,
                s_passage2_week = None, s_passage2_day = None,
                s_max_bookings_per_day = Some 1\<rparr>"

definition closed_service :: service where
  "closed_service = \<lparr>s_service_id = ''closed'', s_name = ''Service ferme'',
                      s_passage1_week = None, s_passage1_day = None,
                      s_passage2_week = None, s_passage2_day = None,
                      s_max_bookings_per_day = Some 0\<rparr>"

definition paid_booking :: booking where
  "paid_booking = \<lparr>b_id = 1, b_name = ''Alice'', b_email = ''alice@example.org'',
                    b_city = ''Lyon'', b_service_type = ''cleaning'',
                    b_preferred_date = ''2025-01-15'', b_preferred_time = ''10:00'',
                    b_status = ''pending'', b_stripe_payment_intent_id = Some ''pi_1'',
                    b_stripe_session_id = Some ''cs_1'', b_payment_status = Some ''paid''\<rparr>"

definition example_state :: state where
  "example_state = \<lparr>bookings = [paid_booking], next_booking_id = 2, quotes = [],
                     services = [cleaning, closed_service], service_cities = [lyon],
                     config = [(''max_bookings_per_day'', ''5''),
                               (''time_selection_enabled'', ''false'')],
                     audit_logs = [], outbox = []\<rparr>"

text \<open>A booking request for Lyon with every required field and a time.\<close>

definition example_request :: "string \<Rightarrow> string option \<Rightarrow> booking_request" where
  "example_request date time =
     \<lparr>r_name = Some ''Bob'', r_email = Some ''bob@example.org'', r_phone = Some ''0600000000'',
      r_city = Some ''Lyon'', r_address = None, r_postalCode = None,
      r_serviceType = Some ''gardening'', r_binCount = None,
      r_preferredDate = Some date, r_preferredTime = time, r_message = None,
      r_rgpdConsent = True, r_marketingConsent = False, r_ip = None\<rparr>"

text \<open>A completed live checkout session with the given metadata.\<close>

definition example_session :: "(string \<times> string) list \<Rightarrow> session" where
  "example_session md =
     \<lparr>sess_id = ''cs_1'', livemode = True, payment_intent = Some ''pi_1'',
      sess_payment_status = Some ''paid'', sess_status = Some ''complete'', metadata = md\<rparr>"

text \<open>The metadata of a session that pays for the existing booking 1.\<close>

definition existing_booking_metadata :: "(string \<times> string) list" where
  "existing_booking_metadata = [(''type'', ''booking''), (''bookingId'', ''1'')]"

text \<open>The metadata of a session whose booking is to be created once paid.\<close>

definition new_booking_metadata :: "(string \<times> string) list" where
  "new_booking_metadata =
     [(''type'', ''booking''), (''bookingName'', ''Carol''), (''bookingEmail'', ''carol@example.org''),
      (''bookingPhone'', ''0611111111''), (''bookingCity'', ''Lyon''),
      (''bookingServiceType'', ''cleaning''), (''bookingPreferredDate'', ''2025-01-15''),
      (''bookingPreferredTime'', '''')]"

text \<open>The passage rule of the cleaning service, and two queries for that service.\<close>

definition cleaning_passage :: passage_config where
  "cleaning_passage = \<lparr>passage1_week = Some 3, passage1_day = Some 3,
                        passage2_week = None, passage2_day = None\<rparr>"

definition january_query :: "string \<Rightarrow> dates_query" where
  "january_query b = \<lparr>startDate = Some ''2025-01-01'', endDate = Some b, city = None,
                      serviceType = Some ''cleaning''\<rparr>"

text \<open>A query for the cleaning service over the single day of its January passage.\<close>

definition passage_day_query :: dates_query where
  "passage_day_query = \<lparr>startDate = Some ''2025-01-15'', endDate = Some ''2025-01-15'', city = None,
                         serviceType = Some ''cleaning''\<rparr>"

section \<open>Facts about the calendar\<close>

lemma DaysInMonth_bounds: "28 \<le> DaysInMonth y m \<and> DaysInMonth y m \<le> 31"
  by (simp add: DaysInMonth_def)

lemma funpow_next_day_in_month:
  "d + int k \<le> DaysInMonth y m \<Longrightarrow>
   (next_day ^^ k) \<lparr>year = y, month = m, day = d\<rparr> = \<lparr>year = y, month = m, day = d + int k\<rparr>"
proof (induction k)
  case 0
  then show ?case by simp
next
  case (Suc k)
  then show ?case by (simp add: next_day_def)
qed

lemma MakeDay_in_month:
  assumes "0 \<le> m" "m \<le> 11" "1 \<le> dt" "dt \<le> DaysInMonth y m"
  shows "MakeDay y m dt = \<lparr>year = y, month = m, day = dt\<rparr>"
proof -
  have "(next_day ^^ nat (dt - 1)) \<lparr>year = y, month = m, day = 1\<rparr>
        = \<lparr>year = y, month = m, day = 1 + int (nat (dt - 1))\<rparr>"
    using assms by (intro funpow_next_day_in_month) simp
  with assms show ?thesis by (simp add: MakeDay_def Let_def)
qed

lemma MakeDay_day_zero:
  assumes "0 \<le> m" "m \<le> 11"
  shows "MakeDay y (m + 1) 0 = \<lparr>year = y, month = m, day = DaysInMonth y m\<rparr>"
proof (cases "m = 11")
  case True
  then show ?thesis by (simp add: MakeDay_def prev_day_def DaysInMonth_def)
next
  case False
  with assms have "(m + 1) div 12 = 0" "(m + 1) mod 12 = m + 1" by auto
  with assms show ?thesis by (simp add: MakeDay_def prev_day_def)
qed

lemma setDate_in_month:
  assumes "0 \<le> m" "m \<le> 11" "1 \<le> dt" "dt \<le> DaysInMonth y m"
  shows "setDate \<lparr>year = y, month = m, day = k\<rparr> dt = \<lparr>year = y, month = m, day = dt\<rparr>"
  using assms by (simp add: setDate_def MakeDay_in_month)

lemma getDay_offset:
  "getDay \<lparr>year = y, month = m, day = k\<rparr> = (month_offset y m + k) mod 7"
  by (simp add: getDay_def day_number_def month_offset_def algebra_simps)

lemma fwd_hit: "0 \<le> wd \<Longrightarrow> wd \<le> 6 \<Longrightarrow> (c + (wd - c mod 7) mod 7) mod 7 = (wd::int)"
  by (simp add: mod_simps)

lemma fwd_miss:
  assumes "0 \<le> i" "i < (wd - c mod 7) mod 7"
  shows "(c + i) mod 7 \<noteq> (wd::int)"
proof
  assume h: "(c + i) mod 7 = wd"
  have "i < 7" using assms(2) pos_mod_bound [of 7 "wd - c mod 7"] by linarith
  have "(wd - c mod 7) mod 7 = ((c + i) mod 7 - c mod 7) mod 7" using h by simp
  also have "\<dots> = i mod 7" by (simp add: mod_simps)
  also have "\<dots> = i" using assms(1) \<open>i < 7\<close> by simp
  finally show False using assms(2) by simp
qed

lemma bwd_hit: "0 \<le> wd \<Longrightarrow> wd \<le> 6 \<Longrightarrow> (c - (c mod 7 - wd) mod 7) mod 7 = (wd::int)"
  by (simp add: mod_simps)

lemma bwd_miss:
  assumes "0 \<le> i" "i < (c mod 7 - wd) mod 7"
  shows "(c - i) mod 7 \<noteq> (wd::int)"
proof
  assume h: "(c - i) mod 7 = wd"
  have "i < 7" using assms(2) pos_mod_bound [of 7 "c mod 7 - wd"] by linarith
  have "(c mod 7 - wd) mod 7 = (c mod 7 - (c - i) mod 7) mod 7" using h by simp
  also have "\<dots> = i mod 7" by (simp add: mod_simps)
  also have "\<dots> = i" using assms(1) \<open>i < 7\<close> by simp
  finally show False using assms(2) by simp
qed

text \<open>The forward loop stops at the first day that has the weekday, \<open>j\<close> days on.\<close>

lemma seek_forward_steps:
  assumes "0 \<le> m" "m \<le> 11"
  shows "1 \<le> k \<Longrightarrow> k + int j \<le> DaysInMonth y m \<Longrightarrow>
         (\<And>i. i < j \<Longrightarrow> getDay \<lparr>year = y, month = m, day = k + int i\<rparr> \<noteq> wd) \<Longrightarrow>
         getDay \<lparr>year = y, month = m, day = k + int j\<rparr> = wd \<Longrightarrow>
         seek_forward \<lparr>year = y, month = m, day = k\<rparr> wd
           = Some \<lparr>year = y, month = m, day = k + int j\<rparr>"
proof (induction j arbitrary: k)
  case 0
  then show ?case by (subst seek_forward.simps) simp
next
  case (Suc j)
  have ne: "getDay \<lparr>year = y, month = m, day = k\<rparr> \<noteq> wd"
    using Suc.prems(3) [of 0] by simp
  have sd: "setDate \<lparr>year = y, month = m, day = k\<rparr> (getDate \<lparr>year = y, month = m, day = k\<rparr> + 1)
            = \<lparr>year = y, month = m, day = k + 1\<rparr>"
    using assms Suc.prems(1,2) by (simp add: getDate_def setDate_in_month)
  have "seek_forward \<lparr>year = y, month = m, day = k + 1\<rparr> wd
        = Some \<lparr>year = y, month = m, day = k + 1 + int j\<rparr>"
  proof (rule Suc.IH)
    show "1 \<le> k + 1" using Suc.prems(1) by simp
    show "k + 1 + int j \<le> DaysInMonth y m" using Suc.prems(2) by simp
    show "getDay \<lparr>year = y, month = m, day = k + 1 + int i\<rparr> \<noteq> wd" if "i < j" for i
      using Suc.prems(3) [of "Suc i"] that by (simp add: add.assoc)
    show "getDay \<lparr>year = y, month = m, day = k + 1 + int j\<rparr> = wd"
      using Suc.prems(4) by (simp add: add.assoc)
  qed
  then show ?case
    using ne sd by (subst seek_forward.simps) (simp add: add.assoc)
qed

lemma seek_backward_steps:
  assumes "0 \<le> m" "m \<le> 11"
  shows "k \<le> DaysInMonth y m \<Longrightarrow> 1 \<le> k - int j \<Longrightarrow>
         (\<And>i. i < j \<Longrightarrow> getDay \<lparr>year = y, month = m, day = k - int i\<rparr> \<noteq> wd) \<Longrightarrow>
         getDay \<lparr>year = y, month = m, day = k - int j\<rparr> = wd \<Longrightarrow>
         seek_backward \<lparr>year = y, month = m, day = k\<rparr> wd
           = Some \<lparr>year = y, month = m, day = k - int j\<rparr>"
proof (induction j arbitrary: k)
  case 0
  then show ?case by (subst seek_backward.simps) simp
next
  case (Suc j)
  have ne: "getDay \<lparr>year = y, month = m, day = k\<rparr> \<noteq> wd"
    using Suc.prems(3) [of 0] by simp
  have sd: "setDate \<lparr>year = y, month = m, day = k\<rparr> (getDate \<lparr>year = y, month = m, day = k\<rparr> - 1)
            = \<lparr>year = y, month = m, day = k - 1\<rparr>"
    using assms Suc.prems(1,2) by (simp add: getDate_def setDate_in_month)
  have "seek_backward \<lparr>year = y, month = m, day = k - 1\<rparr> wd
        = Some \<lparr>year = y, month = m, day = k - 1 - int j\<rparr>"
  proof (rule Suc.IH)
    show "k - 1 \<le> DaysInMonth y m" using Suc.prems(1) by simp
    show "1 \<le> k - 1 - int j" using Suc.prems(2) by simp
    show "getDay \<lparr>year = y, month = m, day = k - 1 - int i\<rparr> \<noteq> wd" if "i < j" for i
      using Suc.prems(3) [of "Suc i"] that by (simp add: algebra_simps)
    show "getDay \<lparr>year = y, month = m, day = k - 1 - int j\<rparr> = wd"
      using Suc.prems(4) by (simp add: algebra_simps)
  qed
  then show ?case
    using ne sd by (subst seek_backward.simps) (simp add: algebra_simps)
qed


lemma first_hit_bounds:
  "1 \<le> 1 + (wd - (c + 1) mod 7) mod (7::int) \<and> 1 + (wd - (c + 1) mod 7) mod 7 \<le> 7"
  using pos_mod_bound [of 7 "wd - (c + 1) mod 7"] pos_mod_sign [of 7 "wd - (c + 1) mod 7"]
  by simp

lemma seek_forward_first:
  assumes "0 \<le> m" "m \<le> 11" "0 \<le> wd" "wd \<le> 6"
  shows "seek_forward \<lparr>year = y, month = m, day = 1\<rparr> wd
         = Some \<lparr>year = y, month = m, day = 1 + (wd - (month_offset y m + 1) mod 7) mod 7\<rparr>"
proof -
  let ?c = "month_offset y m + 1"
  let ?j = "(wd - ?c mod 7) mod 7"
  have jb: "0 \<le> ?j" "?j < 7" by simp_all
  have "seek_forward \<lparr>year = y, month = m, day = 1\<rparr> wd
        = Some \<lparr>year = y, month = m, day = 1 + int (nat ?j)\<rparr>"
  proof (rule seek_forward_steps [OF assms(1,2)])
    show "(1::int) \<le> 1" by simp
    show "1 + int (nat ?j) \<le> DaysInMonth y m"
      using jb DaysInMonth_bounds [of y m] by linarith
    show "getDay \<lparr>year = y, month = m, day = 1 + int i\<rparr> \<noteq> wd" if "i < nat ?j" for i
    proof -
      have "(?c + int i) mod 7 \<noteq> wd"
        by (rule fwd_miss) (use that in simp_all)
      then show ?thesis by (simp add: getDay_offset add.assoc)
    qed
    show "getDay \<lparr>year = y, month = m, day = 1 + int (nat ?j)\<rparr> = wd"
      using fwd_hit [OF assms(3,4), of ?c] jb by (simp add: getDay_offset add.assoc)
  qed
  then show ?thesis using jb by simp
qed

lemma seek_backward_last:
  assumes "0 \<le> m" "m \<le> 11" "0 \<le> wd" "wd \<le> 6"
  shows "seek_backward \<lparr>year = y, month = m, day = DaysInMonth y m\<rparr> wd
         = Some \<lparr>year = y, month = m,
              day = DaysInMonth y m - ((month_offset y m + DaysInMonth y m) mod 7 - wd) mod 7\<rparr>"
proof -
  let ?L = "DaysInMonth y m"
  let ?c = "month_offset y m + ?L"
  let ?j = "(?c mod 7 - wd) mod 7"
  have jb: "0 \<le> ?j" "?j < 7" by simp_all
  have "seek_backward \<lparr>year = y, month = m, day = ?L\<rparr> wd
        = Some \<lparr>year = y, month = m, day = ?L - int (nat ?j)\<rparr>"
  proof (rule seek_backward_steps [OF assms(1,2)])
    show "?L \<le> ?L" by simp
    show "1 \<le> ?L - int (nat ?j)"
      using jb DaysInMonth_bounds [of y m] by linarith
    show "getDay \<lparr>year = y, month = m, day = ?L - int i\<rparr> \<noteq> wd" if "i < nat ?j" for i
    proof -
      have "(?c - int i) mod 7 \<noteq> wd"
        by (rule bwd_miss) (use that in simp_all)
      then show ?thesis by (simp add: getDay_offset algebra_simps)
    qed
    show "getDay \<lparr>year = y, month = m, day = ?L - int (nat ?j)\<rparr> = wd"
      using bwd_hit [OF assms(3,4), of ?c] jb by (simp add: getDay_offset algebra_simps)
  qed
  then show ?thesis using jb by simp
qed

lemma in_occurrences:
  "d \<in> set (occurrences y m wd) \<longleftrightarrow>
     (\<exists>k. 1 \<le> k \<and> k \<le> DaysInMonth (full_year y) m \<and>
          d = \<lparr>year = full_year y, month = m, day = k\<rparr> \<and> getDay d = wd)"
  by (auto simp: occurrences_def month_days_def)

lemma getNthWeekdayOfMonth_5:
  assumes "0 \<le> m" "m \<le> 11" "0 \<le> wd" "wd \<le> 6"
  shows "getNthWeekdayOfMonth y m 5 wd
         = Some [\<lparr>year = full_year y, month = m,
              day = DaysInMonth (full_year y) m
                - ((month_offset (full_year y) m + DaysInMonth (full_year y) m) mod 7 - wd) mod 7\<rparr>]"
  using assms
  by (simp add: getNthWeekdayOfMonth_def new_Date_def MakeDay_day_zero seek_backward_last)

text \<open>
  C6. For a month 0..11 and a weekday 0..6, \<^verbatim>\<open>weekNumber = 5\<close> returns exactly one
  date; it is a day of the given month that falls on the weekday, and no occurrence of
  the weekday in the month is later.
\<close>

theorem getNthWeekdayOfMonth_last_occurrence:
  assumes "in_js_range y" "0 \<le> m" "m \<le> 11" "0 \<le> weekday" "weekday \<le> 6"
  shows "\<exists>d. getNthWeekdayOfMonth y m 5 weekday = Some [d]
            \<and> getDay d = weekday \<and> d \<in> set (month_days y m)
            \<and> (\<forall>e \<in> set (occurrences y m weekday). day e \<le> day d)"
proof -
  let ?Y = "full_year y"
  let ?L = "DaysInMonth ?Y m"
  let ?c = "month_offset ?Y m + ?L"
  let ?j = "(?c mod 7 - weekday) mod 7"
  let ?d = "\<lparr>year = ?Y, month = m, day = ?L - ?j\<rparr>"
  have jb: "0 \<le> ?j" "?j < 7" by simp_all
  have L: "28 \<le> ?L" using DaysInMonth_bounds [of ?Y m] by simp
  have res: "getNthWeekdayOfMonth y m 5 weekday = Some [?d]"
    using assms(2-5) by (rule getNthWeekdayOfMonth_5)
  have wd: "getDay ?d = weekday"
    using bwd_hit [OF assms(4,5), of ?c] by (simp add: getDay_offset algebra_simps)
  have mem: "?d \<in> set (month_days y m)"
  proof -
    have "1 \<le> ?L - ?j" "?L - ?j \<le> ?L" using jb L by linarith+
    then show ?thesis by (auto simp: month_days_def)
  qed
  have later: "day e \<le> day ?d" if "e \<in> set (occurrences y m weekday)" for e
  proof (rule ccontr)
    assume n: "\<not> day e \<le> day ?d"
    from that obtain k where k: "1 \<le> k" "k \<le> ?L" "e = \<lparr>year = ?Y, month = m, day = k\<rparr>"
      "getDay e = weekday"
      unfolding in_occurrences by blast
    from n k have lt: "?L - k < ?j" by simp
    have "(?c - (?L - k)) mod 7 \<noteq> weekday"
      by (rule bwd_miss) (use k lt in simp_all)
    then show False using k by (simp add: getDay_offset algebra_simps)
  qed
  from res wd mem later show ?thesis by blast
qed

lemma weekday_days:
  fixes c wd L d1 :: int
  assumes "0 \<le> wd" "wd \<le> 6" "7 \<le> L"
  defines "d1 \<equiv> 1 + (wd - (c + 1) mod 7) mod 7"
  shows "filter (\<lambda>k. (c + k) mod 7 = wd) [1..L]
         = map (\<lambda>j. d1 + 7 * int j) [0..<nat ((L - d1) div 7 + 1)]"
proof (rule sorted_distinct_set_unique)
  show "sorted (filter (\<lambda>k. (c + k) mod 7 = wd) [1..L])" by (simp add: sorted_wrt_filter)
  show "distinct (filter (\<lambda>k. (c + k) mod 7 = wd) [1..L])" by simp
  show "sorted (map (\<lambda>j. d1 + 7 * int j) [0..<nat ((L - d1) div 7 + 1)])"
    by (simp add: sorted_map sorted_wrt_iff_nth_less)
  show "distinct (map (\<lambda>j. d1 + 7 * int j) [0..<nat ((L - d1) div 7 + 1)])"
    by (simp add: distinct_map inj_on_def)
  have d1b: "1 \<le> d1" "d1 \<le> 7" unfolding d1_def using first_hit_bounds [of wd c] by simp_all
  have hit: "(c + d1) mod 7 = wd"
    using fwd_hit [OF assms(1,2), of "c + 1"] by (simp add: d1_def add.assoc)
  show "set (filter (\<lambda>k. (c + k) mod 7 = wd) [1..L])
        = set (map (\<lambda>j. d1 + 7 * int j) [0..<nat ((L - d1) div 7 + 1)])"
  proof (intro set_eqI iffI)
    fix x
    assume "x \<in> set (filter (\<lambda>k. (c + k) mod 7 = wd) [1..L])"
    then have x: "1 \<le> x" "x \<le> L" "(c + x) mod 7 = wd" by simp_all
    have ge: "d1 \<le> x"
    proof (rule ccontr)
      assume "\<not> d1 \<le> x"
      then have "x - 1 < (wd - (c + 1) mod 7) mod 7" by (simp add: d1_def)
      with x(1) have "((c + 1) + (x - 1)) mod 7 \<noteq> wd" by (intro fwd_miss) simp_all
      with x(3) show False by simp
    qed
    have "(c + x) mod 7 = (c + d1) mod 7" using x(3) hit by simp
    then have "7 dvd (c + x) - (c + d1)" by (simp only: mod_eq_dvd_iff)
    then have "7 dvd x - d1" by simp
    then have "7 * ((x - d1) div 7) = x - d1" by (rule dvd_mult_div_cancel)
    then have eq: "x = d1 + 7 * ((x - d1) div 7)" by linarith
    have "(x - d1) div 7 \<le> (L - d1) div 7" using x(2) by (intro zdiv_mono1) simp_all
    moreover have "0 \<le> (x - d1) div 7" using ge by simp
    ultimately have lt: "nat ((x - d1) div 7) < nat ((L - d1) div 7 + 1)" by linarith
    have "x = d1 + 7 * int (nat ((x - d1) div 7))" using eq \<open>0 \<le> (x - d1) div 7\<close> by simp
    then have "x \<in> (\<lambda>j. d1 + 7 * int j) ` {0..<nat ((L - d1) div 7 + 1)}"
      using lt by (intro image_eqI [where x = "nat ((x - d1) div 7)"]) simp_all
    then show "x \<in> set (map (\<lambda>j. d1 + 7 * int j) [0..<nat ((L - d1) div 7 + 1)])"
      by simp
  next
    fix x
    assume "x \<in> set (map (\<lambda>j. d1 + 7 * int j) [0..<nat ((L - d1) div 7 + 1)])"
    then obtain j where j: "j < nat ((L - d1) div 7 + 1)" "x = d1 + 7 * int j" by auto
    have "(c + x) mod 7 = (c + d1) mod 7" unfolding j(2) by (simp add: mod_simps add.assoc [symmetric])
    then have w: "(c + x) mod 7 = wd" using hit by simp
    have "int j \<le> (L - d1) div 7" using j(1) by linarith
    moreover have "7 * ((L - d1) div 7) + (L - d1) mod 7 = L - d1" by (rule mult_div_mod_eq)
    moreover have "0 \<le> (L - d1) mod 7" by simp
    ultimately have "7 * int j \<le> L - d1" by linarith
    then have "x \<le> L" "1 \<le> x" using j(2) d1b by simp_all
    with w show "x \<in> set (filter (\<lambda>k. (c + k) mod 7 = wd) [1..L])" by simp
  qed
qed


lemma occurrences_closed:
  assumes "0 \<le> wd" "wd \<le> 6"
  shows "occurrences y m wd =
     map (\<lambda>j. \<lparr>year = full_year y, month = m,
                 day = 1 + (wd - (month_offset (full_year y) m + 1) mod 7) mod 7 + 7 * int j\<rparr>)
       [0..<nat ((DaysInMonth (full_year y) m
                   - (1 + (wd - (month_offset (full_year y) m + 1) mod 7) mod 7)) div 7 + 1)]"
proof -
  let ?Y = "full_year y"
  let ?L = "DaysInMonth ?Y m"
  let ?c = "month_offset ?Y m"
  have "occurrences y m wd
        = map (\<lambda>k. \<lparr>year = ?Y, month = m, day = k\<rparr>) (filter (\<lambda>k. (?c + k) mod 7 = wd) [1..?L])"
    by (simp add: occurrences_def month_days_def filter_map o_def getDay_offset)
  also have "filter (\<lambda>k. (?c + k) mod 7 = wd) [1..?L]
        = map (\<lambda>j. 1 + (wd - (?c + 1) mod 7) mod 7 + 7 * int j)
            [0..<nat ((?L - (1 + (wd - (?c + 1) mod 7) mod 7)) div 7 + 1)]"
    using assms DaysInMonth_bounds [of ?Y m] by (intro weekday_days) simp_all
  finally show ?thesis by (simp add: o_def)
qed

lemma getNthWeekdayOfMonth_nth:
  assumes "0 \<le> m" "m \<le> 11" "0 \<le> weekday" "weekday \<le> 6"
    and "1 \<le> weekNumber" "weekNumber \<le> 4"
  shows "getNthWeekdayOfMonth y m weekNumber weekday = Some (nth_occurrence y m weekNumber weekday)"
proof -
  let ?Y = "full_year y"
  let ?L = "DaysInMonth ?Y m"
  let ?d1 = "1 + (weekday - (month_offset ?Y m + 1) mod 7) mod 7"
  let ?dn = "?d1 + (weekNumber - 1) * 7"
  have d1b: "1 \<le> ?d1" "?d1 \<le> 7" using first_hit_bounds [of weekday "month_offset ?Y m"] by simp_all
  have L: "28 \<le> ?L" using DaysInMonth_bounds [of ?Y m] by simp
  have dn1: "1 \<le> ?dn" using d1b assms(5) by simp
  have dn2: "?dn \<le> ?L" using d1b L assms(6) by simp
  note dn = dn1 dn2
  have first: "seek_forward (new_Date y m 1) weekday = Some \<lparr>year = ?Y, month = m, day = ?d1\<rparr>"
    using assms(1-4) L by (simp add: new_Date_def MakeDay_in_month seek_forward_first)
  have sd: "setDate \<lparr>year = ?Y, month = m, day = ?d1\<rparr> ?dn = \<lparr>year = ?Y, month = m, day = ?dn\<rparr>"
    using assms(1,2) dn by (rule setDate_in_month)
  have code: "getNthWeekdayOfMonth y m weekNumber weekday = Some [\<lparr>year = ?Y, month = m, day = ?dn\<rparr>]"
    using assms(5,6) first sd by (simp add: getNthWeekdayOfMonth_def getDate_def getMonth_def Let_def)
  define cnt where "cnt = nat ((?L - ?d1) div 7 + 1)"
  define f where "f = (\<lambda>j. \<lparr>year = ?Y, month = m, day = ?d1 + 7 * int j\<rparr>)"
  have occ: "occurrences y m weekday = map f [0..<cnt]"
    unfolding cnt_def f_def using assms(3,4) by (rule occurrences_closed)
  have "21 \<le> ?L - ?d1" using d1b L by linarith
  then have "3 \<le> (?L - ?d1) div 7" by linarith
  then have "4 \<le> cnt" unfolding cnt_def by linarith
  then have len: "nat weekNumber \<le> cnt" and idx: "nat weekNumber - 1 < cnt"
    using assms(5,6) by linarith+
  have "map f [0..<cnt] ! (nat weekNumber - 1) = f (nat weekNumber - 1)"
    using idx by simp
  then have "nth_occurrence y m weekNumber weekday = [f (nat weekNumber - 1)]"
    unfolding nth_occurrence_def occ Let_def using len by simp
  moreover have "int (nat weekNumber - 1) = weekNumber - 1" using assms(5) by simp
  ultimately have "nth_occurrence y m weekNumber weekday = [\<lparr>year = ?Y, month = m, day = ?dn\<rparr>]"
    unfolding f_def by (simp add: mult.commute)
  with code show ?thesis by simp
qed


text \<open>
  C5. For a month 0..11, a weekday 0..6 and \<^verbatim>\<open>weekNumber\<close> from 1 to 4,
  \<^verbatim>\<open>getNthWeekdayOfMonth\<close> returns the list holding the Nth occurrence of the weekday
  in the month when the month has at least N occurrences, and the empty list when it
  has fewer; it always returns.
\<close>

theorem getNthWeekdayOfMonth_nth_occurrence:
  assumes "in_js_range y" "0 \<le> m" "m \<le> 11" "0 \<le> weekday" "weekday \<le> 6"
    and "1 \<le> weekNumber" "weekNumber \<le> 4"
  shows "getNthWeekdayOfMonth y m weekNumber weekday = Some (nth_occurrence y m weekNumber weekday)"
  using assms(2-7) by (rule getNthWeekdayOfMonth_nth)

lemma nth_occurrence_example:
  "nth_occurrence 2025 0 3 3 = [\<lparr>year = 2025, month = 0, day = 15\<rparr>]"
  by code_simp

theorem getNthWeekdayOfMonth_nth_occurrence_witness:
  "in_js_range 2025 \<and> (0::int) \<le> 0 \<and> (0::int) \<le> 11 \<and> (0::int) \<le> 3 \<and> (3::int) \<le> 6
     \<and> (1::int) \<le> 3 \<and> (3::int) \<le> 4
     \<and> getNthWeekdayOfMonth 2025 0 3 3 = Some [\<lparr>year = 2025, month = 0, day = 15\<rparr>]"
  using getNthWeekdayOfMonth_nth_occurrence [of 2025 0 3 3]
  by (simp add: in_js_range_def nth_occurrence_example)

lemma occurrences_example:
  "occurrences 2025 1 1 = [\<lparr>year = 2025, month = 1, day = 3\<rparr>, \<lparr>year = 2025, month = 1, day = 10\<rparr>,
     \<lparr>year = 2025, month = 1, day = 17\<rparr>, \<lparr>year = 2025, month = 1, day = 24\<rparr>]"
  by code_simp

theorem getNthWeekdayOfMonth_last_occurrence_witness:
  "in_js_range 2025 \<and> (0::int) \<le> 1 \<and> (1::int) \<le> 11 \<and> (0::int) \<le> 1 \<and> (1::int) \<le> 6
     \<and> (\<exists>d. getNthWeekdayOfMonth 2025 1 5 1 = Some [d] \<and> getDay d = 1
            \<and> d \<in> set (month_days 2025 1)
            \<and> (\<forall>e \<in> set (occurrences 2025 1 1). day e \<le> day d))"
  using getNthWeekdayOfMonth_last_occurrence [of 2025 1 1]
  by (simp add: in_js_range_def)


section \<open>The calculator meets its contract\<close>


lemma MakeDay_following_month:
  assumes "0 \<le> m" "m \<le> 11" "DaysInMonth y m < dt" "dt \<le> DaysInMonth y m + 28"
  shows "MakeDay y m dt = following_month y m (dt - DaysInMonth y m)"
proof -
  let ?L = "DaysInMonth y m"
  let ?first = "\<lparr>year = y, month = m, day = 1\<rparr>"
  have L: "28 \<le> ?L" using DaysInMonth_bounds [of y m] by simp
  have split: "nat (dt - 1) = nat (dt - ?L - 1) + Suc (nat (?L - 1))" using assms(3) L by linarith
  have a: "(next_day ^^ nat (?L - 1)) ?first = \<lparr>year = y, month = m, day = ?L\<rparr>"
    using funpow_next_day_in_month [of 1 "nat (?L - 1)" y m] L by simp
  have b: "next_day \<lparr>year = y, month = m, day = ?L\<rparr> = following_month y m 1"
    using assms(2) by (auto simp: next_day_def following_month_def)
  have c: "(next_day ^^ nat (dt - ?L - 1)) (following_month y m 1) = following_month y m (dt - ?L)"
  proof (cases "m = 11")
    case True
    have "1 + int (nat (dt - ?L - 1)) \<le> DaysInMonth (y + 1) 0"
      using assms(3,4) DaysInMonth_bounds [of "y + 1" 0] by linarith
    from funpow_next_day_in_month [OF this] show ?thesis
      using True assms(3) by (simp add: following_month_def)
  next
    case False
    have "1 + int (nat (dt - ?L - 1)) \<le> DaysInMonth y (m + 1)"
      using assms(3,4) DaysInMonth_bounds [of y "m + 1"] by linarith
    from funpow_next_day_in_month [OF this] show ?thesis
      using False assms(3) by (simp add: following_month_def)
  qed
  have "(next_day ^^ nat (dt - 1)) ?first
        = (next_day ^^ nat (dt - ?L - 1)) (next_day ((next_day ^^ nat (?L - 1)) ?first))"
    unfolding split funpow_add by simp
  then have "(next_day ^^ nat (dt - 1)) ?first = following_month y m (dt - ?L)"
    by (simp only: a b c)
  moreover have "1 \<le> dt" using assms(3) L by linarith
  ultimately show ?thesis using assms(1,2) by (simp add: MakeDay_def Let_def)
qed

lemma following_month_other: "0 \<le> m \<Longrightarrow> m \<le> 11 \<Longrightarrow> getMonth (following_month y m k) \<noteq> m"
  by (auto simp: following_month_def getMonth_def)

lemma collect_weekly_closed:
  assumes "0 \<le> m" "m \<le> 11"
  shows "1 \<le> k \<Longrightarrow> k \<le> DaysInMonth y m \<Longrightarrow> n = nat ((DaysInMonth y m - k) div 7) \<Longrightarrow>
         collect_weekly \<lparr>year = y, month = m, day = k\<rparr> m acc
           = Some (acc @ map (\<lambda>j. \<lparr>year = y, month = m, day = k + 7 * int j\<rparr>) [0..<Suc n])"
proof (induction n arbitrary: k acc)
  case 0
  let ?L = "DaysInMonth y m"
  have "(?L - k) div 7 \<le> 0" using 0 by linarith
  then have "?L - k < 7" by linarith
  then have out: "?L < k + 7" "k + 7 \<le> ?L + 28" using 0(1,2) by linarith+
  have sd: "setDate \<lparr>year = y, month = m, day = k\<rparr> (getDate \<lparr>year = y, month = m, day = k\<rparr> + 7)
            = following_month y m (k + 7 - ?L)"
    using assms out by (simp add: setDate_def getDate_def MakeDay_following_month)
  have stop: "collect_weekly (following_month y m (k + 7 - ?L)) m (acc @ [\<lparr>year = y, month = m, day = k\<rparr>])
              = Some (acc @ [\<lparr>year = y, month = m, day = k\<rparr>])"
    using following_month_other [OF assms] by (subst collect_weekly.simps) simp
  show ?case
    by (subst collect_weekly.simps) (simp add: getMonth_def sd stop)
next
  case (Suc n)
  let ?L = "DaysInMonth y m"
  have "1 \<le> (?L - k) div 7" using Suc.prems(3) by linarith
  then have "7 \<le> ?L - k" by linarith
  then have le: "k + 7 \<le> ?L" by simp
  have sd: "setDate \<lparr>year = y, month = m, day = k\<rparr> (getDate \<lparr>year = y, month = m, day = k\<rparr> + 7)
            = \<lparr>year = y, month = m, day = k + 7\<rparr>"
    using assms Suc.prems(1) le by (simp add: getDate_def setDate_in_month)
  have n: "n = nat ((?L - (k + 7)) div 7)" using Suc.prems(3) by simp
  have ih: "collect_weekly \<lparr>year = y, month = m, day = k + 7\<rparr> m (acc @ [\<lparr>year = y, month = m, day = k\<rparr>])
        = Some ((acc @ [\<lparr>year = y, month = m, day = k\<rparr>])
                 @ map (\<lambda>j. \<lparr>year = y, month = m, day = k + 7 + 7 * int j\<rparr>) [0..<Suc n])"
    using Suc.prems(1) le n by (intro Suc.IH) simp_all
  have shift: "map (\<lambda>j. \<lparr>year = y, month = m, day = k + 7 * int j\<rparr>) [0..<Suc (Suc n)]
        = \<lparr>year = y, month = m, day = k\<rparr>
            # map (\<lambda>j. \<lparr>year = y, month = m, day = k + 7 + 7 * int j\<rparr>) [0..<Suc n]"
    by (subst map_upt_Suc) (simp add: algebra_simps del: upt_Suc)
  show ?case
    by (subst collect_weekly.simps)
       (simp only: getMonth_def jsdate.simps sd ih shift append_assoc append.simps refl if_True)
qed


lemma getNthWeekdayOfMonth_0:
  assumes "0 \<le> m" "m \<le> 11" "0 \<le> wd" "wd \<le> 6"
  shows "getNthWeekdayOfMonth y m 0 wd = Some (occurrences y m wd)"
proof -
  let ?Y = "full_year y"
  let ?L = "DaysInMonth ?Y m"
  let ?d1 = "1 + (wd - (month_offset ?Y m + 1) mod 7) mod 7"
  have d1b: "1 \<le> ?d1" "?d1 \<le> 7" using first_hit_bounds [of wd "month_offset ?Y m"] by simp_all
  have L: "28 \<le> ?L" using DaysInMonth_bounds [of ?Y m] by simp
  have first: "seek_forward (new_Date y m 1) wd = Some \<lparr>year = ?Y, month = m, day = ?d1\<rparr>"
    using assms L by (simp add: new_Date_def MakeDay_in_month seek_forward_first)
  have le: "?d1 \<le> ?L" using d1b L by linarith
  have cw: "collect_weekly \<lparr>year = ?Y, month = m, day = ?d1\<rparr> m []
        = Some ([] @ map (\<lambda>j. \<lparr>year = ?Y, month = m, day = ?d1 + 7 * int j\<rparr>)
                       [0..<Suc (nat ((?L - ?d1) div 7))])"
    using assms(1,2) d1b(1) le by (rule collect_weekly_closed) simp
  have "0 \<le> (?L - ?d1) div 7" using le by simp
  then have cnt: "nat ((?L - ?d1) div 7 + 1) = Suc (nat ((?L - ?d1) div 7))" by linarith
  have "occurrences y m wd = map (\<lambda>j. \<lparr>year = ?Y, month = m, day = ?d1 + 7 * int j\<rparr>)
                       [0..<Suc (nat ((?L - ?d1) div 7))]"
    using occurrences_closed [OF assms(3,4), of y m] by (simp only: cnt)
  then show ?thesis
    using first cw by (simp add: getNthWeekdayOfMonth_def del: upt_Suc)
qed

lemma last_arith:
  fixes c L wd :: int
  shows "1 + (wd - (c + 1) mod 7) mod 7 + 7 * ((L - (1 + (wd - (c + 1) mod 7) mod 7)) div 7)
         = L - ((c + L) mod 7 - wd) mod 7"
proof -
  let ?d1 = "1 + (wd - (c + 1) mod 7) mod 7"
  have "7 * ((L - ?d1) div 7) + (L - ?d1) mod 7 = L - ?d1" by (rule mult_div_mod_eq)
  moreover have "(L - ?d1) mod 7 = ((c + L) mod 7 - wd) mod 7"
  proof -
    have e1: "(L - ?d1) mod 7 = (L - ?d1 mod 7) mod 7" by (simp only: mod_diff_right_eq)
    have e2: "?d1 mod 7 = (1 + (wd - (c + 1))) mod 7"
      by (simp only: mod_add_right_eq mod_diff_right_eq)
    have e3: "(L - (1 + (wd - (c + 1))) mod 7) mod 7 = (L - (1 + (wd - (c + 1)))) mod 7"
      by (simp only: mod_diff_right_eq)
    have e4: "L - (1 + (wd - (c + 1))) = c + L - wd" by simp
    have e5: "((c + L) mod 7 - wd) mod 7 = (c + L - wd) mod 7" by (simp only: mod_diff_left_eq)
    show ?thesis by (simp only: e1 e2 e3 e4 e5)
  qed
  ultimately show ?thesis by linarith
qed

lemma last_occurrence:
  assumes "0 \<le> wd" "wd \<le> 6"
  shows "last (occurrences y m wd)
         = \<lparr>year = full_year y, month = m,
            day = DaysInMonth (full_year y) m
                    - ((month_offset (full_year y) m + DaysInMonth (full_year y) m) mod 7 - wd) mod 7\<rparr>"
proof -
  let ?Y = "full_year y"
  let ?L = "DaysInMonth ?Y m"
  let ?d1 = "1 + (wd - (month_offset ?Y m + 1) mod 7) mod 7"
  define n where "n = nat ((?L - ?d1) div 7)"
  have d1b: "?d1 \<le> 7" using first_hit_bounds [of wd "month_offset ?Y m"] by simp
  have L: "28 \<le> ?L" using DaysInMonth_bounds [of ?Y m] by simp
  have nn: "0 \<le> (?L - ?d1) div 7" using d1b L by simp
  then have cnt: "nat ((?L - ?d1) div 7 + 1) = Suc n" unfolding n_def by linarith
  have "occurrences y m wd = map (\<lambda>j. \<lparr>year = ?Y, month = m, day = ?d1 + 7 * int j\<rparr>) [0..<Suc n]"
    using occurrences_closed [OF assms, of y m] by (simp only: cnt)
  then have "last (occurrences y m wd) = \<lparr>year = ?Y, month = m, day = ?d1 + 7 * int n\<rparr>"
    by (simp add: last_map)
  moreover have "int n = (?L - ?d1) div 7" unfolding n_def using nn by simp
  ultimately show ?thesis using last_arith [of wd "month_offset ?Y m" ?L] by simp
qed

text \<open>For a month 0..11, a weekday 0..6 and a week 0..5 the calculator returns the
  dates of its contract.\<close>

lemma getNthWeekdayOfMonth_contract:
  assumes "0 \<le> m" "m \<le> 11" "0 \<le> wd" "wd \<le> 6" "0 \<le> w" "w \<le> 5"
  shows "getNthWeekdayOfMonth y m w wd = Some (weekday_dates y m w wd)"
proof -
  consider "w = 0" | "w = 5" | "1 \<le> w \<and> w \<le> 4" using assms(5,6) by linarith
  then show ?thesis
  proof cases
    case 1
    then show ?thesis using assms(1-4) by (simp add: weekday_dates_def getNthWeekdayOfMonth_0)
  next
    case 2
    then show ?thesis
      using assms(1-4) by (simp add: weekday_dates_def getNthWeekdayOfMonth_5 last_occurrence)
  next
    case 3
    then have "getNthWeekdayOfMonth y m w wd = Some (nth_occurrence y m w wd)"
      using assms(1-4) by (intro getNthWeekdayOfMonth_nth) simp_all
    with 3 show ?thesis by (simp add: weekday_dates_def)
  qed
qed


section \<open>Months in order\<close>

lemma div_step:
  "(0::int) < n \<Longrightarrow> (x + 1) div n = x div n + (if (x + 1) mod n = 0 then 1 else 0)"
proof -
  assume n: "0 < n"
  have a: "n * (x div n) + x mod n = x" by (rule mult_div_mod_eq)
  have b: "0 \<le> x mod n" "x mod n < n" using n by simp_all
  show ?thesis
  proof (cases "x mod n = n - 1")
    case True
    have "x + 1 = (x div n + 1) * n + 0" using a True by (simp add: algebra_simps)
    then have "(x + 1) div n = x div n + 1 \<and> (x + 1) mod n = 0"
      using n by (metis add.right_neutral div_mult_self3 mod_mult_self3 div_0 mod_0 add.commute less_irrefl)
    then show ?thesis by simp
  next
    case False
    have "x + 1 = (x div n) * n + (x mod n + 1)" using a by (simp add: algebra_simps)
    moreover have "0 \<le> x mod n + 1" "x mod n + 1 < n" using b False by linarith+
    ultimately have "(x + 1) div n = x div n \<and> (x + 1) mod n = x mod n + 1"
      using n by (metis div_mult_self3 mod_mult_self3 div_pos_pos_trivial mod_pos_pos_trivial add.right_neutral less_irrefl)
    then show ?thesis using b by simp
  qed
qed

lemma mod_shift_4: "((y::int) - 1968) mod 4 = y mod 4"
proof -
  have "(y - 1968) mod 4 = (y - 1968 mod 4) mod 4" by (simp only: mod_diff_right_eq)
  then show ?thesis by simp
qed

lemma mod_shift_100: "((y::int) - 1900) mod 100 = y mod 100"
proof -
  have "(y - 1900) mod 100 = (y - 1900 mod 100) mod 100" by (simp only: mod_diff_right_eq)
  then show ?thesis by simp
qed

lemma mod_shift_400: "((y::int) - 1600) mod 400 = y mod 400"
proof -
  have "(y - 1600) mod 400 = (y - 1600 mod 400) mod 400" by (simp only: mod_diff_right_eq)
  then show ?thesis by simp
qed

lemma century_400: "(y::int) mod 400 = 0 \<Longrightarrow> y mod 100 = 0"
proof -
  assume "y mod 400 = 0"
  then have "400 dvd y" by (simp only: mod_eq_0_iff_dvd)
  moreover have "(100::int) dvd 400" by simp
  ultimately have "100 dvd y" by (rule dvd_trans [rotated])
  then show ?thesis by (simp only: mod_eq_0_iff_dvd)
qed

lemma century_4: "(y::int) mod 100 = 0 \<Longrightarrow> y mod 4 = 0"
proof -
  assume "y mod 100 = 0"
  then have "100 dvd y" by (simp only: mod_eq_0_iff_dvd)
  moreover have "(4::int) dvd 100" by simp
  ultimately have "4 dvd y" by (rule dvd_trans [rotated])
  then show ?thesis by (simp only: mod_eq_0_iff_dvd)
qed

lemma DayFromYear_next: "DayFromYear (y + 1) = DayFromYear y + (if leap y then 366 else 365)"
proof -
  have a: "(y + 1 - 1969) div 4 = (y - 1969) div 4 + (if y mod 4 = 0 then 1 else 0)"
    using div_step [of 4 "y - 1969"] mod_shift_4 [of y] by (simp add: algebra_simps)
  have b: "(y + 1 - 1901) div 100 = (y - 1901) div 100 + (if y mod 100 = 0 then 1 else 0)"
    using div_step [of 100 "y - 1901"] mod_shift_100 [of y] by (simp add: algebra_simps)
  have c: "(y + 1 - 1601) div 400 = (y - 1601) div 400 + (if y mod 400 = 0 then 1 else 0)"
    using div_step [of 400 "y - 1601"] mod_shift_400 [of y] by (simp add: algebra_simps)
  show ?thesis
    unfolding DayFromYear_def leap_def a b c
    using century_400 [of y] century_4 [of y] by (auto simp: algebra_simps)
qed

lemma month_cases:
  "(0::int) \<le> m \<Longrightarrow> m \<le> 10 \<Longrightarrow>
   m = 0 \<or> m = 1 \<or> m = 2 \<or> m = 3 \<or> m = 4 \<or> m = 5 \<or> m = 6 \<or> m = 7 \<or> m = 8 \<or> m = 9 \<or> m = 10"
  by presburger

lemma days_before_next_month:
  assumes "0 \<le> m" "m \<le> 10"
  shows "days_before_month y (m + 1) = days_before_month y m + DaysInMonth y m"
  using month_cases [OF assms]
  by (elim disjE) (simp_all add: days_before_month_def DaysInMonth_def)

lemma days_before_december: "days_before_month y 11 + 31 = (if leap y then 366 else 365)"
  by (simp add: days_before_month_def)

lemma first_of_month_next:
  "day_number (first_of_month (i + 1))
   = day_number (first_of_month i) + DaysInMonth (i div 12) (i mod 12)"
proof (cases "i mod 12 = 11")
  case True
  have "i + 1 = (i div 12 + 1) * 12 + 0"
    using mult_div_mod_eq [of 12 i] True by (simp add: algebra_simps)
  then have n: "(i + 1) div 12 = i div 12 + 1" "(i + 1) mod 12 = 0"
    by (metis div_mult_self3 mod_mult_self3 div_0 mod_0 add.commute add.right_neutral
        zero_neq_numeral)+
  show ?thesis
    using True days_before_december [of "i div 12"] DayFromYear_next [of "i div 12"]
    by (simp add: first_of_month_def day_number_def n DaysInMonth_def)
       (simp add: days_before_month_def)
next
  case False
  have r: "0 \<le> i mod 12" "i mod 12 < 12" by simp_all
  then have m: "0 \<le> i mod 12" "i mod 12 \<le> 10" using False by linarith+
  have "i + 1 = (i div 12) * 12 + (i mod 12 + 1)"
    using mult_div_mod_eq [of 12 i] by (simp add: algebra_simps)
  moreover have "0 \<le> i mod 12 + 1" "i mod 12 + 1 < 12" using m by linarith+
  ultimately have n: "(i + 1) div 12 = i div 12" "(i + 1) mod 12 = i mod 12 + 1"
    by (metis div_mult_self3 mod_mult_self3 div_pos_pos_trivial mod_pos_pos_trivial
        add.right_neutral zero_neq_numeral)+
  show ?thesis
    using days_before_next_month [OF m, of "i div 12"]
    by (simp add: first_of_month_def day_number_def n)
qed


lemma first_of_month_grows:
  "day_number (first_of_month i) + 28 * int k \<le> day_number (first_of_month (i + int k))"
proof (induction k)
  case 0
  then show ?case by simp
next
  case (Suc k)
  have "day_number (first_of_month (i + int k + 1))
        = day_number (first_of_month (i + int k)) + DaysInMonth ((i + int k) div 12) ((i + int k) mod 12)"
    by (rule first_of_month_next)
  then show ?case
    using Suc DaysInMonth_bounds [of "(i + int k) div 12" "(i + int k) mod 12"]
    by (simp add: add.assoc algebra_simps)
qed

lemma first_of_month_mono:
  assumes "i \<le> j"
  shows "day_number (first_of_month i) \<le> day_number (first_of_month j)"
proof -
  define k where "k = nat (j - i)"
  have j: "j = i + int k" using assms by (simp add: k_def)
  have "0 \<le> 28 * int k" by simp
  then show ?thesis using first_of_month_grows [of i k] unfolding j by linarith
qed

lemma month_index_valid:
  assumes "valid_date d"
  shows "month_index d div 12 = year d" "month_index d mod 12 = month d"
  using assms by (simp_all add: valid_date_def month_index_def)

lemma day_number_valid:
  assumes "valid_date d"
  shows "day_number d = day_number (first_of_month (month_index d)) + day d - 1"
  using month_index_valid [OF assms] by (simp add: day_number_def first_of_month_def)

lemma first_le_iff:
  assumes "valid_date e"
  shows "day_number (first_of_month i) \<le> day_number e \<longleftrightarrow> i \<le> month_index e"
proof
  assume le: "i \<le> month_index e"
  have "day_number (first_of_month i) \<le> day_number (first_of_month (month_index e))"
    using le by (rule first_of_month_mono)
  also have "\<dots> \<le> day_number e"
    using day_number_valid [OF assms] assms by (simp add: valid_date_def)
  finally show "day_number (first_of_month i) \<le> day_number e" .
next
  assume d: "day_number (first_of_month i) \<le> day_number e"
  show "i \<le> month_index e"
  proof (rule ccontr)
    assume "\<not> i \<le> month_index e"
    then have "month_index e + 1 \<le> i" by simp
    then have "day_number (first_of_month (month_index e + 1)) \<le> day_number (first_of_month i)"
      by (rule first_of_month_mono)
    moreover have "day_number (first_of_month (month_index e + 1))
          = day_number (first_of_month (month_index e)) + DaysInMonth (year e) (month e)"
      using first_of_month_next [of "month_index e"] month_index_valid [OF assms] by simp
    moreover have "day_number e < day_number (first_of_month (month_index e)) + DaysInMonth (year e) (month e)"
      using day_number_valid [OF assms] assms by (simp add: valid_date_def)
    ultimately show False using d by simp
  qed
qed

lemma MakeDay_carry: "MakeDay y m dt = MakeDay (y + m div 12) (m mod 12) dt"
  by (simp add: MakeDay_def)

text \<open>
  The step to the next month: \<^verbatim>\<open>setMonth\<close> keeps the day of the month when the next
  month has it, and \<^verbatim>\<open>setDate(1)\<close> then yields the first of the next month. When the
  next month is too short, \<^verbatim>\<open>setMonth\<close> lands in the month after it, which
  \<^verbatim>\<open>setDate(1)\<close> does not undo.
\<close>

lemma next_month_start_valid:
  assumes "valid_date cur" "next_month_has_day cur"
  shows "next_month_start cur = first_of_month (month_index cur + 1)"
proof -
  let ?y = "year cur + (month cur + 1) div 12"
  let ?m = "(month cur + 1) mod 12"
  have "?m < 12" by simp
  then have m: "0 \<le> ?m" "?m \<le> 11" by simp_all
  have d: "1 \<le> day cur" "day cur \<le> DaysInMonth ?y ?m"
    using assms by (simp_all add: valid_date_def next_month_has_day_def)
  have "setMonth cur (getMonth cur + 1) = MakeDay ?y ?m (day cur)"
    by (subst MakeDay_carry [symmetric]) (simp add: setMonth_def getMonth_def)
  also have "\<dots> = \<lparr>year = ?y, month = ?m, day = day cur\<rparr>"
    using m d by (rule MakeDay_in_month)
  finally have sm: "setMonth cur (getMonth cur + 1) = \<lparr>year = ?y, month = ?m, day = day cur\<rparr>" .
  have "setDate \<lparr>year = ?y, month = ?m, day = day cur\<rparr> 1 = \<lparr>year = ?y, month = ?m, day = 1\<rparr>"
    using m DaysInMonth_bounds [of ?y ?m] by (intro setDate_in_month) simp_all
  moreover have "(month_index cur + 1) div 12 = ?y" "(month_index cur + 1) mod 12 = ?m"
    by (simp_all add: month_index_def add.assoc)
  ultimately show ?thesis by (simp add: next_month_start_def sm first_of_month_def)
qed

lemma first_of_month_index:
  assumes "0 \<le> m" "m \<le> 11"
  shows "first_of_month (12 * y + m) = \<lparr>year = y, month = m, day = 1\<rparr>"
  using assms by (simp add: first_of_month_def)

lemma next_month_start_overflow:
  assumes "valid_date cur" "\<not> next_month_has_day cur"
  shows "next_month_start cur = first_of_month (month_index cur + 2)"
proof -
  let ?y = "year cur + (month cur + 1) div 12"
  let ?m = "(month cur + 1) mod 12"
  let ?k = "day cur - DaysInMonth ?y ?m"
  have "?m < 12" by simp
  then have m: "0 \<le> ?m" "?m \<le> 11" by simp_all
  have hi: "day cur \<le> 31"
    using assms(1) DaysInMonth_bounds [of "year cur" "month cur"] by (simp add: valid_date_def)
  have d: "DaysInMonth ?y ?m < day cur" "day cur \<le> DaysInMonth ?y ?m + 28"
    using assms(2) hi DaysInMonth_bounds [of ?y ?m] by (simp_all add: next_month_has_day_def)
  have "setMonth cur (getMonth cur + 1) = MakeDay ?y ?m (day cur)"
    by (subst MakeDay_carry [symmetric]) (simp add: setMonth_def getMonth_def)
  also have "\<dots> = following_month ?y ?m ?k"
    using m d by (rule MakeDay_following_month)
  finally have sm: "setMonth cur (getMonth cur + 1) = following_month ?y ?m ?k" .
  have idx: "month_index cur + 1 = 12 * ?y + ?m"
    using mult_div_mod_eq [of 12 "month cur + 1"] by (simp add: month_index_def algebra_simps)
  show ?thesis
  proof (cases "?m = 11")
    case True
    have "setDate \<lparr>year = ?y + 1, month = 0, day = ?k\<rparr> 1 = \<lparr>year = ?y + 1, month = 0, day = 1\<rparr>"
      by (rule setDate_in_month) (simp_all add: DaysInMonth_def)
    moreover have "month_index cur + 2 = 12 * (?y + 1) + 0" using idx True by simp
    then have "first_of_month (month_index cur + 2) = \<lparr>year = ?y + 1, month = 0, day = 1\<rparr>"
      by (simp only: first_of_month_index)
    ultimately show ?thesis
      using True by (simp add: next_month_start_def sm following_month_def)
  next
    case False
    then have m1: "0 \<le> ?m + 1" "?m + 1 \<le> 11" using m by linarith+
    have "setDate \<lparr>year = ?y, month = ?m + 1, day = ?k\<rparr> 1 = \<lparr>year = ?y, month = ?m + 1, day = 1\<rparr>"
      using m1 DaysInMonth_bounds [of ?y "?m + 1"] by (intro setDate_in_month) simp_all
    moreover have "month_index cur + 2 = 12 * ?y + (?m + 1)" using idx by simp
    then have "first_of_month (month_index cur + 2) = \<lparr>year = ?y, month = ?m + 1, day = 1\<rparr>"
      using m1 by (simp only: first_of_month_index)
    ultimately show ?thesis
      using False by (simp add: next_month_start_def sm following_month_def)
  qed
qed

section \<open>Full dates\<close>












lemma parseInt_5: "parseInt ''5'' = Some 5"
  by (simp add: parseInt_def is_space_def is_digit_def digits_val_def digit_val_def)

lemma cleaning_limit: "resolve_limit example_state (Some ''cleaning'') = (Some 1, True)"
  by (simp add: resolve_limit_def getConfig_def example_state_def truthy_def parseInt_5
      getServiceByServiceId_def cleaning_def closed_service_def)


lemma cleaning_jan15_count:
  "countPaidBookingsByDateAndService example_state (Some ''2025-01-15'') (Some ''cleaning'') = 1"
  by (simp add: countPaidBookingsByDateAndService_def example_state_def paid_booking_def
      is_paid_active_def)






section \<open>Facts about the store\<close>

lemma getBookingById_None_iff:
  "getBookingById st (Some i) = None \<longleftrightarrow> i \<notin> b_id ` set (bookings st)"
  by (auto simp: getBookingById_def find_None_iff)

lemma map_id_updateBookingStatus:
  "map b_id (bookings (updateBookingStatus s i st)) = map b_id (bookings st)"
  by (simp add: updateBookingStatus_def o_def if_distrib [of b_id] cong: if_cong)

lemma map_id_updateBookingPayment:
  "map b_id (bookings (updateBookingPayment a b c i st)) = map b_id (bookings st)"
  by (simp add: updateBookingPayment_def o_def if_distrib [of b_id] cong: if_cong)

lemma ids_updateBookingStatus:
  "b_id ` set (bookings (updateBookingStatus s i st)) = b_id ` set (bookings st)"
  using map_id_updateBookingStatus [of s i st] by (metis set_map)

lemma ids_updateBookingPayment:
  "b_id ` set (bookings (updateBookingPayment a b c i st)) = b_id ` set (bookings st)"
  using map_id_updateBookingPayment [of a b c i st] by (metis set_map)

lemma bookings_createAuditLog: "bookings (createAuditLog a b c st) = bookings st"
  by (simp add: createAuditLog_def)

lemma insertBooking_id:
  "insertBooking ps st = Inr (i, st') \<Longrightarrow> i \<in> b_id ` set (bookings st')"
  by (auto simp: insertBooking_def Let_def split: if_splits)

lemma getBookingById_found_id:
  "getBookingById st i = Some b \<Longrightarrow> i = Some (b_id b) \<and> b \<in> set (bookings st)"
  by (cases i) (auto simp: getBookingById_def dest: find_Some_iff [THEN iffD1] simp: find_Some_iff)

lemma webhook_finish_responds:
  assumes "bookingId \<in> b_id ` set (bookings st)"
  shows "\<exists>r st'. webhook_finish e s bookingId booking st = (Responded r, st') \<and> http_status r = 200"
proof -
  from assms obtain u where "getBookingById st (Some bookingId) = Some u"
    using getBookingById_None_iff [of st bookingId] by (cases "getBookingById st (Some bookingId)") auto
  then show ?thesis by (simp add: webhook_finish_def Let_def)
qed

lemma webhook_create_responds:
  "\<exists>r st'. webhook_create e s st = (Responded r, st') \<and> http_status r = 200"
proof -
  obtain lim useSvc where rl: "resolve_limit st (meta s ''bookingServiceType'') = (lim, useSvc)"
    by (cases "resolve_limit st (meta s ''bookingServiceType'')")
  show ?thesis
  proof (cases "insertBooking (payment_params e s) st")
    case (Inl err)
    then show ?thesis by (simp add: webhook_create_def rl Let_def)
  next
    case (Inr p)
    obtain i st1 where p: "p = (i, st1)" by (cases p)
    let ?st4 = "updateBookingPayment (intent_or_null s) (Some (sess_id s)) ''paid'' i
                  (updateBookingStatus ''pending'' i
                    (createAuditLog ''STATUS_CHANGE'' ''booking'' (Some (show_int i)) st1))"
    have "i \<in> b_id ` set (bookings st1)" using Inr p by (auto dest: insertBooking_id)
    then have "i \<in> b_id ` set (bookings ?st4)"
      by (simp add: ids_updateBookingPayment ids_updateBookingStatus bookings_createAuditLog)
    from webhook_finish_responds [OF this, of e s "getBookingById ?st4 (Some i)"]
    show ?thesis using Inr p by (simp add: webhook_create_def rl Let_def)
  qed
qed

lemma webhook_booking_responds:
  "\<exists>r st'. webhook_booking e s st = (Responded r, st') \<and> http_status r = 200"
proof (cases "truthy (meta s ''bookingId'')")
  case True
  show ?thesis
  proof (cases "getBookingById st (parseInt (the (meta s ''bookingId'')))")
    case None
    with True show ?thesis by (simp add: webhook_booking_def)
  next
    case (Some booking)
    let ?st2 = "updateBookingStatus ''pending'' (b_id booking)
                  (updateBookingPayment (intent_or_null s) (Some (sess_id s)) ''paid'' (b_id booking) st)"
    have "b_id booking \<in> b_id ` set (bookings st)"
      using getBookingById_found_id [OF Some] by blast
    then have "b_id booking \<in> b_id ` set (bookings ?st2)"
      by (simp add: ids_updateBookingPayment ids_updateBookingStatus)
    from webhook_finish_responds [OF this, of e s "Some booking"]
    show ?thesis using True Some by (simp add: webhook_booking_def Let_def)
  qed
next
  case False
  then show ?thesis using webhook_create_responds [of e s st]
    by (simp add: webhook_booking_def)
qed

lemma webhook_quote_responds:
  "\<exists>r st'. webhook_quote s st = (Responded r, st') \<and> http_status r = 200"
  by (simp add: webhook_quote_def split: option.split)

text \<open>
  C9. Once Stripe is configured and the signature of the request is verified, the
  webhook handler answers every event with status 200 and never throws: also when the
  date is full, when the time slot is taken, when the booking named by the metadata is
  missing and when the insertion fails.
\<close>

theorem stripe_webhook_acknowledges:
  assumes "stripe_configured e" "webhook_secret_configured e"
  shows "\<exists>r st'. stripe_webhook e True ev st = (Responded r, st') \<and> http_status r = 200"
proof (cases ev)
  case (OtherEvent t)
  with assms show ?thesis by (simp add: stripe_webhook_def)
next
  case (CheckoutSessionCompleted s)
  with assms show ?thesis
    using webhook_booking_responds [of e s st] webhook_quote_responds [of s st]
    by (simp add: stripe_webhook_def)
qed


section \<open>POST /api/booking\<close>

lemma parse_date_truthy: "parse_date s = Some d \<Longrightarrow> truthy (Some s)"
  by (auto simp: parse_date_def truthy_def split: if_splits)

lemma booking_insert_fails: "insertBooking (booking_params e r) st = Inl RangeError"
  by (simp add: insertBooking_def booking_params_def)

lemma api_booking_state: "snd (api_booking e r st) = st"
  by (simp add: api_booking_def booking_insert_fails Let_def split: option.split prod.split)



lemma parse_cutoff: "parse_date ''2025-06-30'' = Some \<lparr>year = 2025, month = 5, day = 30\<rparr>"
  by (simp add: parse_date_def is_digit_def digits_val_def digit_val_def MakeDay_in_month
      DaysInMonth_def leap_def)



lemma lyon_found: "checkServiceCity example_state (Some ''Lyon'') = Some lyon"
  by (simp add: checkServiceCity_def example_state_def lyon_def)



lemma checkBookingConflict_found:
  assumes "b \<in> set (bookings st)" "Some (b_preferred_date b) = d" "Some (b_preferred_time b) = t"
    and "b_status b \<noteq> ''cancelled''"
  shows "checkBookingConflict st d t \<noteq> None"
  using assms by (auto simp: checkBookingConflict_def find_None_iff)

text \<open>
  C8, as the code has it. A booking request that passes the city, cutoff and
  required-field checks, carries a time, and names the date and time of a booking that
  is not cancelled, is answered 409 and leaves the store as it is: with the message that
  the date is full when the paid count has reached the limit, and with the message that
  the date and time are taken otherwise. The check runs whenever the request carries a
  time, whether time selection is enabled or not.
\<close>

theorem api_booking_conflict:
  assumes "city_gate st r = None" "\<not> missing_fields st r" "truthy (r_preferredTime r)"
    and "b \<in> set (bookings st)" "Some (b_preferred_date b) = r_preferredDate r"
    and "Some (b_preferred_time b) = r_preferredTime r" "b_status b \<noteq> ''cancelled''"
  shows "api_booking e r st =
           (\<lparr>http_status = 409,
             body = Failure
               (if limit_reached
                     (current_count st (snd (resolve_limit st (r_serviceType r))) (r_preferredDate r)
                        (r_serviceType r))
                     (fst (resolve_limit st (r_serviceType r)))
                then DateFull else SlotTaken)\<rparr>, st)"
proof -
  have "checkBookingConflict st (r_preferredDate r) (r_preferredTime r) \<noteq> None"
    using assms(4-7) by (rule checkBookingConflict_found)
  then show ?thesis
    using assms(1-3) by (simp add: api_booking_def Let_def split: prod.split)
qed

lemma parse_jan15: "parse_date ''2025-01-15'' = Some \<lparr>year = 2025, month = 0, day = 15\<rparr>"
  by (simp add: parse_date_def is_digit_def digits_val_def digit_val_def MakeDay_in_month
      DaysInMonth_def leap_def)

lemma gate_jan15: "city_gate example_state (example_request ''2025-01-15'' t) = None"
  by (simp add: city_gate_def example_request_def lyon_found lyon_def truthy_def parse_jan15
      parse_cutoff date_gt_def day_number_def DayFromYear_def days_before_month_def leap_def)

lemma fields_present:
  "\<not> missing_fields example_state (example_request ''2025-01-15'' (Some ''10:00''))"
  by (simp add: missing_fields_def example_request_def truthy_def)

lemma gardening_limit: "resolve_limit example_state (Some ''gardening'') = (Some 5, False)"
  by (simp add: resolve_limit_def getConfig_def example_state_def truthy_def parseInt_def
      is_space_def is_digit_def digits_val_def digit_val_def getServiceByServiceId_def
      cleaning_def closed_service_def)

lemma jan15_count: "countPaidBookingsByDate example_state (Some ''2025-01-15'') = 1"
  by (simp add: countPaidBookingsByDate_def example_state_def paid_booking_def is_paid_active_def)

theorem api_booking_conflict_witness:
  "city_gate example_state (example_request ''2025-01-15'' (Some ''10:00'')) = None
   \<and> \<not> missing_fields example_state (example_request ''2025-01-15'' (Some ''10:00''))
   \<and> truthy (r_preferredTime (example_request ''2025-01-15'' (Some ''10:00'')))
   \<and> paid_booking \<in> set (bookings example_state)
   \<and> b_status paid_booking \<noteq> ''cancelled''
   \<and> api_booking example_env (example_request ''2025-01-15'' (Some ''10:00'')) example_state
       = (\<lparr>http_status = 409, body = Failure SlotTaken\<rparr>, example_state)"
proof -
  let ?r = "example_request ''2025-01-15'' (Some ''10:00'')"
  have t: "truthy (r_preferredTime ?r)" by (simp add: example_request_def truthy_def)
  have m: "paid_booking \<in> set (bookings example_state)" by (simp add: example_state_def)
  have d: "Some (b_preferred_date paid_booking) = r_preferredDate ?r"
    by (simp add: example_request_def paid_booking_def)
  have h: "Some (b_preferred_time paid_booking) = r_preferredTime ?r"
    by (simp add: example_request_def paid_booking_def)
  have s: "b_status paid_booking \<noteq> ''cancelled''" by (simp add: paid_booking_def)
  have svc: "r_serviceType ?r = Some ''gardening''" "r_preferredDate ?r = Some ''2025-01-15''"
    by (simp_all add: example_request_def)
  from api_booking_conflict [OF gate_jan15 fields_present t m d h s, of example_env]
  show ?thesis
    using gate_jan15 [of "Some ''10:00''"] fields_present t m s
    by (simp add: svc gardening_limit current_count_def jan15_count limit_reached_def)
qed

text \<open>
  The conflict check is not bound to time selection: here time selection is switched
  off, the request carries a time, and the request is refused because the date and time
  are taken.
\<close>

theorem conflict_checked_without_time_selection:
  "getConfig example_state ''time_selection_enabled'' = Some ''false''
   \<and> api_booking example_env (example_request ''2025-01-15'' (Some ''10:00'')) example_state
       = (\<lparr>http_status = 409, body = Failure SlotTaken\<rparr>, example_state)"
proof -
  let ?r = "example_request ''2025-01-15'' (Some ''10:00'')"
  have c: "checkBookingConflict example_state (Some ''2025-01-15'') (Some ''10:00'') \<noteq> None"
    by (simp add: checkBookingConflict_def example_state_def paid_booking_def)
  have f: "r_serviceType ?r = Some ''gardening''" "r_preferredDate ?r = Some ''2025-01-15''"
    "r_preferredTime ?r = Some ''10:00''"
    by (simp_all add: example_request_def)
  have g: "getConfig example_state ''time_selection_enabled'' = Some ''false''"
    by (simp add: getConfig_def example_state_def)
  have "api_booking example_env ?r example_state
        = (\<lparr>http_status = 409, body = Failure SlotTaken\<rparr>, example_state)"
    using c gate_jan15 [of "Some ''10:00''"] fields_present
    by (simp add: api_booking_def f gardening_limit current_count_def jan15_count limit_reached_def
        truthy_def)
  with g show ?thesis by simp
qed


lemma insertBooking_unique:
  assumes "length ps = 20" "b \<in> set (bookings st)"
    and "sql_text (ps ! 8) = Some (b_preferred_date b)" "sql_text (ps ! 9) = Some (b_preferred_time b)"
  shows "insertBooking ps st = Inl SQLITE_CONSTRAINT_UNIQUE \<or> insertBooking ps st = Inl SQLITE_CONSTRAINT_NOTNULL"
  using assms by (auto simp: insertBooking_def)

lemma parse_jan20: "parse_date ''2025-01-20'' = Some \<lparr>year = 2025, month = 0, day = 20\<rparr>"
  by (simp add: parse_date_def is_digit_def digits_val_def digit_val_def MakeDay_in_month
      DaysInMonth_def leap_def)

lemma gate_jan20: "city_gate example_state (example_request ''2025-01-20'' t) = None"
  by (simp add: city_gate_def example_request_def lyon_found lyon_def truthy_def parse_jan20
      parse_cutoff date_gt_def day_number_def DayFromYear_def days_before_month_def leap_def)

lemma fields_present_no_time:
  "\<not> missing_fields example_state (example_request ''2025-01-20'' None)"
  by (simp add: missing_fields_def example_request_def truthy_def getConfig_def example_state_def)

lemma jan20_count: "countPaidBookingsByDate example_state (Some ''2025-01-20'') = 0"
  by (simp add: countPaidBookingsByDate_def example_state_def paid_booking_def is_paid_active_def)

text \<open>
  C10, on the code. The table does refuse a second row with the date and time of any
  row, cancelled or not, and a request without a time binds \<^verbatim>\<open>"09:00"\<close>; but
  \<^verbatim>\<open>POST /api/booking\<close> binds 18 values to the 20 placeholders of \<^verbatim>\<open>insertBooking\<close>, so
  the statement never runs. With time selection switched off, a complete request without
  a time, for a date with no booking at all, is answered 500 and stores nothing; the same
  request sent again meets the same store and gets the same answer, not a 409.
\<close>

theorem api_booking_without_time_stores_nothing:
  "getConfig example_state ''time_selection_enabled'' = Some ''false''
   \<and> length (booking_params example_env (example_request ''2025-01-20'' None)) = 18
   \<and> booking_params example_env (example_request ''2025-01-20'' None) ! 9 = SqlText ''09:00''
   \<and> api_booking example_env (example_request ''2025-01-20'' None) example_state
       = (\<lparr>http_status = 500, body = Failure SaveFailed\<rparr>, example_state)"
proof -
  let ?r = "example_request ''2025-01-20'' None"
  have f: "r_serviceType ?r = Some ''gardening''" "r_preferredDate ?r = Some ''2025-01-20''"
    "r_preferredTime ?r = None"
    by (simp_all add: example_request_def)
  have g: "getConfig example_state ''time_selection_enabled'' = Some ''false''"
    by (simp add: getConfig_def example_state_def)
  have p: "length (booking_params example_env ?r) = 18"
    "booking_params example_env ?r ! 9 = SqlText ''09:00''"
    by (simp_all add: booking_params_def f time_or_default_def truthy_def)
  have "api_booking example_env ?r example_state
        = (\<lparr>http_status = 500, body = Failure SaveFailed\<rparr>, example_state)"
    using gate_jan20 [of None] fields_present_no_time
    by (simp add: api_booking_def f gardening_limit current_count_def jan20_count limit_reached_def
        truthy_def booking_insert_fails)
  with g p show ?thesis by simp
qed


theorem api_booking_without_time_stores_nothing_witness:
  "http_status (fst (api_booking example_env (example_request ''2025-01-20'' None) example_state)) = 500
   \<and> bookings (snd (api_booking example_env (example_request ''2025-01-20'' None) example_state))
       = [paid_booking]"
  using api_booking_without_time_stores_nothing by (simp add: example_state_def)
section \<open>The loop over the months\<close>

lemma set_add_dates:
  "set (add_dates tz s e ds acc)
   = set acc \<union> format_date ` {d \<in> set ds. in_range tz s e d}"
  unfolding add_dates_def
  by (induction ds arbitrary: acc) (auto simp: push_new_def)

lemma distinct_add_dates: "distinct acc \<Longrightarrow> distinct (add_dates tz s e ds acc)"
  unfolding add_dates_def
  by (induction ds arbitrary: acc) (auto simp: push_new_def)

lemma set_month_step:
  "set (month_step tz cfg s e i acc)
   = set acc \<union> format_date ` {d \<in> set (passage_dates1 cfg (i div 12) (i mod 12)
                                          @ passage_dates2 cfg (i div 12) (i mod 12)).
                                 in_range tz s e d}"
  by (auto simp: month_step_def set_add_dates)

lemma distinct_month_step: "distinct acc \<Longrightarrow> distinct (month_step tz cfg s e i acc)"
  by (simp add: month_step_def distinct_add_dates)

lemma set_months_fold:
  "set (months_fold tz cfg s e months acc)
   = set acc \<union> format_date ` {d \<in> set (concat (map (\<lambda>i. passage_dates1 cfg (i div 12) (i mod 12)
                                          @ passage_dates2 cfg (i div 12) (i mod 12)) months)).
                                 in_range tz s e d}"
  unfolding months_fold_def
proof (induction months arbitrary: acc)
  case Nil
  then show ?case by simp
next
  case (Cons i months)
  show ?case
    by (simp only: foldl_Cons Cons.IH set_month_step) auto
qed

lemma distinct_months_fold: "distinct acc \<Longrightarrow> distinct (months_fold tz cfg s e months acc)"
  unfolding months_fold_def
  by (induction months arbitrary: acc) (simp_all add: distinct_month_step)

lemma passage_step_valid:
  assumes "valid_passage week wday" "0 \<le> m" "m \<le> 11"
  shows "passage_step tz week wday y m s e acc
         = Some (add_dates tz s e
             (case week of None \<Rightarrow> []
              | Some w \<Rightarrow> (case wday of None \<Rightarrow> [] | Some d \<Rightarrow> weekday_dates y m w d)) acc)"
proof (cases week)
  case None
  then show ?thesis by (simp add: passage_step_def add_dates_def)
next
  case (Some w)
  show ?thesis
  proof (cases wday)
    case None
    with Some show ?thesis by (simp add: passage_step_def add_dates_def)
  next
    case (Some d)
    with \<open>week = Some w\<close> assms(1) have v: "0 \<le> w" "w \<le> 5" "0 \<le> d" "d \<le> 6"
      by (simp_all add: valid_passage_def)
    have "getNthWeekdayOfMonth y m w d = Some (weekday_dates y m w d)"
      using assms(2,3) v(3,4,1,2) by (rule getNthWeekdayOfMonth_contract)
    with Some \<open>week = Some w\<close> show ?thesis by (simp add: passage_step_def)
  qed
qed

lemma month_round:
  assumes "valid_config cfg"
  shows "do { a1 \<leftarrow> passage_step tz (passage1_week cfg) (passage1_day cfg) (i div 12) (i mod 12) s e acc;
              a2 \<leftarrow> passage_step tz (passage2_week cfg) (passage2_day cfg) (i div 12) (i mod 12) s e a1;
              k a2 }
         = k (month_step tz cfg s e i acc)"
proof -
  have "i mod 12 < 12" by simp
  then have m: "0 \<le> i mod 12" "i mod 12 \<le> 11" by simp_all
  have v: "valid_passage (passage1_week cfg) (passage1_day cfg)"
    "valid_passage (passage2_week cfg) (passage2_day cfg)"
    using assms by (simp_all add: valid_config_def)
  show ?thesis
    by (simp add: passage_step_valid [OF v(1) m] passage_step_valid [OF v(2) m] month_step_def
        passage_dates1_def passage_dates2_def)
qed

text \<open>
  On a server in UTC or ahead of it by less than a day, midnight UTC of a day falls on
  the same day of the local calendar, and \<^verbatim>\<open>current <= end\<close> compares the two days.
\<close>

lemma local_date_east: "0 \<le> tz \<Longrightarrow> tz < 1440 \<Longrightarrow> local_date tz d = d"
  by (simp add: local_date_def shift_days_def)

lemma loop_cond_east:
  "0 \<le> tz \<Longrightarrow> tz < 1440 \<Longrightarrow>
   local_time tz d (local_minutes tz) \<le> utc_midnight e \<longleftrightarrow> day_number d \<le> day_number e"
  by (simp add: local_time_def local_minutes_def utc_midnight_def)

lemma month_loop_from_first:
  assumes "valid_config cfg" "valid_date e" "0 \<le> tz" "tz < 1440"
  shows "n = nat (month_index e - i + 1) \<Longrightarrow>
         month_loop tz cfg s e (first_of_month i) acc
           = Some (months_fold tz cfg s e [i..month_index e] acc)"
proof (induction n arbitrary: i acc)
  case 0
  then have gt: "month_index e < i" by linarith
  then have "\<not> local_time tz (first_of_month i) (local_minutes tz) \<le> utc_midnight e"
    by (simp add: loop_cond_east [OF assms(3,4)] first_le_iff [OF assms(2)])
  moreover have "[i..month_index e] = []" using gt by simp
  ultimately show ?case
    by (subst month_loop.simps) (simp add: months_fold_def)
next
  case (Suc n)
  then have le: "i \<le> month_index e" by linarith
  then have cond: "local_time tz (first_of_month i) (local_minutes tz) \<le> utc_midnight e"
    by (simp add: loop_cond_east [OF assms(3,4)] first_le_iff [OF assms(2)])
  have "i mod 12 < 12" by simp
  then have vf: "valid_date (first_of_month i)"
    using DaysInMonth_bounds [of "i div 12" "i mod 12"] by (simp add: valid_date_def first_of_month_def)
  have hd: "next_month_has_day (first_of_month i)"
    using DaysInMonth_bounds [of "i div 12 + (i mod 12 + 1) div 12" "(i mod 12 + 1) mod 12"]
    by (simp add: next_month_has_day_def first_of_month_def)
  have mi: "month_index (first_of_month i) = i" by (simp add: month_index_def first_of_month_def)
  have nxt: "next_month_start (first_of_month i) = first_of_month (i + 1)"
    using next_month_start_valid [OF vf hd] by (simp add: mi)
  have ih: "month_loop tz cfg s e (first_of_month (i + 1)) (month_step tz cfg s e i acc)
        = Some (months_fold tz cfg s e [i + 1..month_index e] (month_step tz cfg s e i acc))"
    using Suc.prems by (intro Suc.IH) linarith
  have fields: "getFullYear (first_of_month i) = i div 12" "getMonth (first_of_month i) = i mod 12"
    by (simp_all add: getFullYear_def getMonth_def first_of_month_def)
  have unfold: "[i..month_index e] = i # [i + 1..month_index e]" using le by (rule upto_rec1)
  show ?case
    by (subst month_loop.simps)
       (simp only: cond if_True fields nxt month_round [OF assms(1)] ih unfold months_fold_def foldl_Cons)
qed

lemma day_number_month_index:
  assumes "valid_date s" "valid_date e" "day_number s \<le> day_number e"
  shows "month_index s \<le> month_index e"
proof (rule ccontr)
  assume "\<not> month_index s \<le> month_index e"
  then have "month_index e + 1 \<le> month_index s" by simp
  then have "day_number (first_of_month (month_index e + 1)) \<le> day_number (first_of_month (month_index s))"
    by (rule first_of_month_mono)
  moreover have "day_number (first_of_month (month_index s)) \<le> day_number s"
    using day_number_valid [OF assms(1)] assms(1) by (simp add: valid_date_def)
  moreover have "day_number (first_of_month (month_index e + 1))
        = day_number (first_of_month (month_index e)) + DaysInMonth (year e) (month e)"
    using first_of_month_next [of "month_index e"] month_index_valid [OF assms(2)] by simp
  moreover have "day_number e < day_number (first_of_month (month_index e)) + DaysInMonth (year e) (month e)"
    using day_number_valid [OF assms(2)] assms(2) by (simp add: valid_date_def)
  ultimately show False using assms(3) by simp
qed

lemma valid_MakeDay:
  assumes "0 \<le> m" "m \<le> 11" "1 \<le> d" "d \<le> 31"
  shows "valid_date (MakeDay y m d)"
proof (cases "d \<le> DaysInMonth y m")
  case True
  then show ?thesis using assms by (simp add: MakeDay_in_month valid_date_def)
next
  case False
  then have "DaysInMonth y m < d" "d \<le> DaysInMonth y m + 28"
    using assms(4) DaysInMonth_bounds [of y m] by linarith+
  then have "MakeDay y m d = following_month y m (d - DaysInMonth y m)"
    using assms(1,2) by (intro MakeDay_following_month)
  moreover have "1 \<le> d - DaysInMonth y m" "d - DaysInMonth y m \<le> 28"
    using False assms(4) DaysInMonth_bounds [of y m] by linarith+
  ultimately show ?thesis
    using assms(1,2) DaysInMonth_bounds [of "y + 1" 0] DaysInMonth_bounds [of y "m + 1"]
    by (auto simp: following_month_def valid_date_def)
qed

lemma valid_parse_date: "parse_date a = Some d \<Longrightarrow> valid_date d"
  by (auto simp: parse_date_def Let_def split: if_splits intro!: valid_MakeDay)

text \<open>
  What the loop over the months yields on a server in UTC or ahead of it, when the month
  after the start month is not skipped - the day of the start date exists in it - or
  lies beyond the end date: the passage dates of the months from the start to the end
  whose local midnight lies in the range, each once.
\<close>

lemma month_loop_range:
  assumes "valid_config cfg" "valid_date s" "valid_date e"
    and "next_month_has_day s \<or> month_index e \<le> month_index s"
    and "0 \<le> tz" "tz < 1440"
  shows "\<exists>allowed. month_loop tz cfg s e s [] = Some allowed \<and> distinct allowed
           \<and> set allowed = format_date ` set (window_dates tz cfg s e)"
proof (cases "day_number s \<le> day_number e")
  case False
  then have "\<not> local_time tz s (local_minutes tz) \<le> utc_midnight e"
    by (simp add: loop_cond_east [OF assms(5,6)])
  then have "month_loop tz cfg s e s [] = Some []"
    by (subst month_loop.simps) simp
  moreover have "window_dates tz cfg s e = []"
    using False by (auto simp: window_dates_def in_range_def utc_midnight_def filter_empty_conv)
  ultimately show ?thesis by simp
next
  case True
  let ?i = "month_index s"
  define j where "j = (if next_month_has_day s then ?i + 1 else ?i + 2)"
  have cond: "local_time tz s (local_minutes tz) \<le> utc_midnight e"
    using True by (simp add: loop_cond_east [OF assms(5,6)])
  have le: "?i \<le> month_index e" using assms(2,3) True by (rule day_number_month_index)
  have fields: "getFullYear s = ?i div 12" "getMonth s = ?i mod 12"
    using month_index_valid [OF assms(2)] by (simp_all add: getFullYear_def getMonth_def)
  have nxt: "next_month_start s = first_of_month j"
    using next_month_start_valid [OF assms(2)] next_month_start_overflow [OF assms(2)]
    by (simp add: j_def)
  have months: "[j..month_index e] = [?i + 1..month_index e]"
    using assms(4) le by (auto simp: j_def)
  have rest: "month_loop tz cfg s e (first_of_month j) (month_step tz cfg s e ?i [])
        = Some (months_fold tz cfg s e [j..month_index e] (month_step tz cfg s e ?i []))"
    using assms(1,3,5,6) by (rule month_loop_from_first) simp
  have unfold: "[?i..month_index e] = ?i # [?i + 1..month_index e]" using le by (rule upto_rec1)
  have "month_loop tz cfg s e s [] = Some (months_fold tz cfg s e [?i..month_index e] [])"
    by (subst month_loop.simps)
       (simp only: cond if_True fields nxt month_round [OF assms(1)] rest months unfold
          months_fold_def foldl_Cons)
  moreover have "distinct (months_fold tz cfg s e [?i..month_index e] [])"
    by (simp add: distinct_months_fold)
  moreover have "set (months_fold tz cfg s e [?i..month_index e] [])
      = format_date ` set (window_dates tz cfg s e)"
    by (simp add: set_months_fold window_dates_def)
  ultimately show ?thesis by blast
qed

lemma available_dates_window:
  assumes "startDate q = Some a" "endDate q = Some b"
    and "parse_date a = Some s" "parse_date b = Some e"
    and "next_month_has_day s \<or> month_index e \<le> month_index s"
    and "resolve_passage st (serviceType q) (city q) = Some cfg" "valid_config cfg"
    and "0 \<le> tz" "tz < 1440"
  shows "\<exists>allowed. distinct allowed \<and> set allowed = format_date ` set (window_dates tz cfg s e)
           \<and> available_dates tz st q =
               Some \<lparr>http_status = 200,
                     body = FullAndAllowed (full_dates st a b (serviceType q))
                              (if allowed = [] then None else Some allowed)\<rparr>"
proof -
  obtain allowed where l: "month_loop tz cfg s e s [] = Some allowed" "distinct allowed"
    "set allowed = format_date ` set (window_dates tz cfg s e)"
    using month_loop_range [OF assms(7) valid_parse_date [OF assms(3)] valid_parse_date [OF assms(4)]
        assms(5,8,9)]
    by blast
  have t: "truthy (startDate q)" "truthy (endDate q)"
    using assms(1-4) by (auto dest: parse_date_truthy)
  have "allowed_dates tz st q = Some allowed"
    using assms(1-4,6) l(1) by (simp add: allowed_dates_def local_date_east [OF assms(8,9)])
  then have "available_dates tz st q =
               Some \<lparr>http_status = 200,
                     body = FullAndAllowed (full_dates st a b (serviceType q))
                              (if allowed = [] then None else Some allowed)\<rparr>"
    using t assms(1,2) by (simp add: available_dates_def)
  with l(2,3) show ?thesis by blast
qed

text \<open>On a server in UTC the local midnight of a day is its midnight UTC.\<close>

lemma window_dates_utc: "window_dates 0 cfg s e = range_dates cfg s e"
  by (simp add: window_dates_def range_dates_def in_range_def [abs_def] utc_midnight_def
      local_time_def)

lemma available_dates_restricted:
  assumes "startDate q = Some a" "endDate q = Some b"
    and "parse_date a = Some s" "parse_date b = Some e"
    and "next_month_has_day s \<or> month_index e \<le> month_index s"
    and "resolve_passage st (serviceType q) (city q) = Some cfg" "valid_config cfg"
  shows "\<exists>allowed. distinct allowed \<and> set allowed = format_date ` set (range_dates cfg s e)
           \<and> available_dates 0 st q =
               Some \<lparr>http_status = 200,
                     body = FullAndAllowed (full_dates st a b (serviceType q))
                              (if allowed = [] then None else Some allowed)\<rparr>"
  using available_dates_window [OF assms, of 0] by (simp add: window_dates_utc)

lemma available_dates_unrestricted:
  assumes "startDate q = Some a" "endDate q = Some b" "truthy (Some a)" "truthy (Some b)"
    and "resolve_passage st (serviceType q) (city q) = None"
  shows "available_dates tz st q =
           Some \<lparr>http_status = 200, body = FullAndAllowed (full_dates st a b (serviceType q)) None\<rparr>"
  using assms by (simp add: available_dates_def allowed_dates_def)

text \<open>
  C4, as the code has it, on a server whose local time is UTC. Take a query whose dates
  are written \<^verbatim>\<open>YYYY-MM-DD\<close> and whose start date has a day of the month that exists in
  the month after, or whose end date lies in the month of the start date or before it
  (otherwise the loop over the months skips the month after the start month). When no
  passage rule applies - the service defines no passage week, and no enabled city is
  named - \<^verbatim>\<open>allowedDates\<close> is null. When a rule applies (the service's when it defines a
  passage week, the city's otherwise) with weeks 0..5 and weekdays 0..6, the handler has
  computed the passage dates of passage 1 and passage 2 of every month from the start
  month to the end month that lie within the two dates, each once; \<^verbatim>\<open>allowedDates\<close>
  is that list when it is not empty, and null when it is empty.
\<close>

theorem available_dates_allowed:
  assumes "startDate q = Some a" "endDate q = Some b"
    and "parse_date a = Some s" "parse_date b = Some e"
    and "next_month_has_day s \<or> month_index e \<le> month_index s"
  shows "(resolve_passage st (serviceType q) (city q) = None \<longrightarrow>
            available_dates 0 st q =
              Some \<lparr>http_status = 200, body = FullAndAllowed (full_dates st a b (serviceType q)) None\<rparr>)
         \<and> (\<forall>cfg. resolve_passage st (serviceType q) (city q) = Some cfg \<and> valid_config cfg \<longrightarrow>
               (\<exists>allowed. distinct allowed \<and> set allowed = format_date ` set (range_dates cfg s e)
                  \<and> available_dates 0 st q =
                      Some \<lparr>http_status = 200,
                            body = FullAndAllowed (full_dates st a b (serviceType q))
                                     (if allowed = [] then None else Some allowed)\<rparr>))
         \<and> (\<forall>cfg. service_passage st (serviceType q) = Some cfg \<longrightarrow>
               resolve_passage st (serviceType q) (city q) = Some cfg)"
proof (intro conjI impI allI)
  assume "resolve_passage st (serviceType q) (city q) = None"
  then show "available_dates 0 st q =
      Some \<lparr>http_status = 200, body = FullAndAllowed (full_dates st a b (serviceType q)) None\<rparr>"
    using assms(1-4) by (intro available_dates_unrestricted) (auto dest: parse_date_truthy)
next
  fix cfg
  assume "resolve_passage st (serviceType q) (city q) = Some cfg \<and> valid_config cfg"
  then show "\<exists>allowed. distinct allowed \<and> set allowed = format_date ` set (range_dates cfg s e)
      \<and> available_dates 0 st q =
          Some \<lparr>http_status = 200,
                body = FullAndAllowed (full_dates st a b (serviceType q))
                         (if allowed = [] then None else Some allowed)\<rparr>"
    using assms by (intro available_dates_restricted) simp_all
next
  fix cfg
  assume "service_passage st (serviceType q) = Some cfg"
  then show "resolve_passage st (serviceType q) (city q) = Some cfg"
    by (simp add: resolve_passage_def)
qed

section \<open>The allowed dates of the sample deployment\<close>

lemma parse_jan1: "parse_date ''2025-01-01'' = Some \<lparr>year = 2025, month = 0, day = 1\<rparr>"
  by (simp add: parse_date_def is_digit_def digits_val_def digit_val_def MakeDay_in_month
      DaysInMonth_def leap_def)

lemma parse_jan2: "parse_date ''2025-01-02'' = Some \<lparr>year = 2025, month = 0, day = 2\<rparr>"
  by (simp add: parse_date_def is_digit_def digits_val_def digit_val_def MakeDay_in_month
      DaysInMonth_def leap_def)

lemma parse_jan31: "parse_date ''2025-01-31'' = Some \<lparr>year = 2025, month = 0, day = 31\<rparr>"
  by (simp add: parse_date_def is_digit_def digits_val_def digit_val_def MakeDay_in_month
      DaysInMonth_def leap_def)

lemma cleaning_resolved: "resolve_passage example_state (Some ''cleaning'') None = Some cleaning_passage"
  by (simp add: resolve_passage_def service_passage_def truthy_def getServiceByServiceId_def
      example_state_def cleaning_def cleaning_passage_def)

lemma cleaning_passage_valid: "valid_config cleaning_passage"
  by (simp add: valid_config_def valid_passage_def cleaning_passage_def)

lemma january_passages:
  "passage_dates1 cleaning_passage 2025 0 @ passage_dates2 cleaning_passage 2025 0
   = [\<lparr>year = 2025, month = 0, day = 15\<rparr>]"
  by (simp add: passage_dates1_def passage_dates2_def cleaning_passage_def weekday_dates_def
      nth_occurrence_example)

lemma january_months: "[month_index \<lparr>year = 2025, month = 0, day = d\<rparr>..month_index \<lparr>year = 2025, month = 0, day = d'\<rparr>] = [24300]"
  by (simp add: month_index_def upto_rec1)

lemma range_january:
  "range_dates cleaning_passage \<lparr>year = 2025, month = 0, day = 1\<rparr> \<lparr>year = 2025, month = 0, day = 31\<rparr>
   = [\<lparr>year = 2025, month = 0, day = 15\<rparr>]"
  by (simp add: range_dates_def january_months january_passages day_number_def)

lemma range_two_days:
  "range_dates cleaning_passage \<lparr>year = 2025, month = 0, day = 1\<rparr> \<lparr>year = 2025, month = 0, day = 2\<rparr>
   = []"
  by (simp add: range_dates_def january_months january_passages day_number_def)

lemma format_jan15: "format_date \<lparr>year = 2025, month = 0, day = 15\<rparr> = ''2025-01-15''"
  by code_simp

lemma distinct_single: "distinct xs \<Longrightarrow> set xs = {x} \<Longrightarrow> xs = [x]"
  by (cases xs; cases "tl xs") auto

lemma full_january:
  "full_dates example_state ''2025-01-01'' ''2025-01-31'' (Some ''cleaning'') = [''2025-01-15'']"
  by (simp add: full_dates_def cleaning_limit getPaidBookingsByDateRangeAndService_def
      group_by_date_def limit_reached_def)
     (simp add: example_state_def paid_booking_def is_paid_active_def)

lemma full_two_days:
  "full_dates example_state ''2025-01-01'' ''2025-01-02'' (Some ''cleaning'') = []"
  by (simp add: full_dates_def cleaning_limit getPaidBookingsByDateRangeAndService_def
      group_by_date_def limit_reached_def)
     (simp add: example_state_def paid_booking_def is_paid_active_def)

lemma full_passage_day:
  "full_dates example_state ''2025-01-15'' ''2025-01-15'' (Some ''cleaning'') = [''2025-01-15'']"
  by (simp add: full_dates_def cleaning_limit getPaidBookingsByDateRangeAndService_def
      group_by_date_def limit_reached_def)
     (simp add: example_state_def paid_booking_def is_paid_active_def)


theorem available_dates_allowed_witness:
  "startDate (january_query ''2025-01-31'') = Some ''2025-01-01''
   \<and> endDate (january_query ''2025-01-31'') = Some ''2025-01-31''
   \<and> parse_date ''2025-01-01'' = Some \<lparr>year = 2025, month = 0, day = 1\<rparr>
   \<and> parse_date ''2025-01-31'' = Some \<lparr>year = 2025, month = 0, day = 31\<rparr>
   \<and> next_month_has_day \<lparr>year = 2025, month = 0, day = 1\<rparr>
   \<and> resolve_passage example_state (Some ''cleaning'') None = Some cleaning_passage
   \<and> valid_config cleaning_passage
   \<and> available_dates 0 example_state (january_query ''2025-01-31'') =
         Some \<lparr>http_status = 200,
               body = FullAndAllowed [''2025-01-15''] (Some [''2025-01-15''])\<rparr>"
proof -
  let ?q = "january_query ''2025-01-31''"
  let ?s = "\<lparr>year = 2025, month = 0, day = 1\<rparr>"
  let ?e = "\<lparr>year = 2025, month = 0, day = 31\<rparr>"
  have a: "startDate ?q = Some ''2025-01-01''" and b: "endDate ?q = Some ''2025-01-31''"
    and c: "serviceType ?q = Some ''cleaning''" "city ?q = None"
    by (simp_all add: january_query_def)
  have d: "next_month_has_day ?s" by (simp add: next_month_has_day_def DaysInMonth_def)
  then have d': "next_month_has_day ?s \<or> month_index ?e \<le> month_index ?s" by simp
  have r: "resolve_passage example_state (serviceType ?q) (city ?q) = Some cleaning_passage"
    by (simp add: c cleaning_resolved)
  from available_dates_allowed [OF a b parse_jan1 parse_jan31 d', of example_state]
  have "\<exists>allowed. distinct allowed
          \<and> set allowed = format_date ` set (range_dates cleaning_passage ?s ?e)
          \<and> available_dates 0 example_state ?q =
              Some \<lparr>http_status = 200,
                    body = FullAndAllowed
                      (full_dates example_state ''2025-01-01'' ''2025-01-31'' (serviceType ?q))
                      (if allowed = [] then None else Some allowed)\<rparr>"
    using r cleaning_passage_valid by blast
  then obtain allowed where l: "distinct allowed" "set allowed = {''2025-01-15''}"
    and res: "available_dates 0 example_state ?q =
              Some \<lparr>http_status = 200,
                    body = FullAndAllowed [''2025-01-15'']
                      (if allowed = [] then None else Some allowed)\<rparr>"
    by (auto simp: range_january format_jan15 c full_january)
  have "allowed = [''2025-01-15'']" using l by (rule distinct_single)
  with res show ?thesis
    using a b d cleaning_resolved cleaning_passage_valid by (simp add: parse_jan1 parse_jan31)
qed

text \<open>
  \<^verbatim>\<open>allowedDates\<close> is null although a passage rule applies: the cleaning service is
  restricted to the third Wednesday, the range of two days holds no such day, and the
  answer carries null, which the caller reads as "every date is allowed".
\<close>

theorem allowed_dates_null_under_restriction:
  "resolve_passage example_state (serviceType (january_query ''2025-01-02''))
       (city (january_query ''2025-01-02'')) = Some cleaning_passage
   \<and> available_dates 0 example_state (january_query ''2025-01-02'') =
         Some \<lparr>http_status = 200, body = FullAndAllowed [] None\<rparr>"
proof -
  let ?q = "january_query ''2025-01-02''"
  let ?s = "\<lparr>year = 2025, month = 0, day = 1\<rparr>"
  let ?e = "\<lparr>year = 2025, month = 0, day = 2\<rparr>"
  have a: "startDate ?q = Some ''2025-01-01''" and b: "endDate ?q = Some ''2025-01-02''"
    and c: "serviceType ?q = Some ''cleaning''" "city ?q = None"
    by (simp_all add: january_query_def)
  have d: "next_month_has_day ?s \<or> month_index ?e \<le> month_index ?s"
    by (simp add: month_index_def)
  have r: "resolve_passage example_state (serviceType ?q) (city ?q) = Some cleaning_passage"
    by (simp add: c cleaning_resolved)
  from available_dates_restricted [OF a b parse_jan1 parse_jan2 d r cleaning_passage_valid]
  obtain allowed where "set allowed = {}"
    and "available_dates 0 example_state ?q =
              Some \<lparr>http_status = 200,
                    body = FullAndAllowed []
                      (if allowed = [] then None else Some allowed)\<rparr>"
    by (auto simp: range_two_days c full_two_days)
  then have "available_dates 0 example_state ?q =
      Some \<lparr>http_status = 200, body = FullAndAllowed [] None\<rparr>"
    by simp
  with r show ?thesis by simp
qed

section \<open>The two slips the statement of C4 leaves out\<close>

text \<open>
  The time zone. The bounds of the range are at midnight UTC and a passage date is at
  midnight local time. On a server one hour ahead of UTC (Paris in winter) the passage
  date 2025-01-15 begins at 23:00 UTC of the 14th, before the start bound of a query that
  starts on the 15th: the date is left out, and here \<^verbatim>\<open>allowedDates\<close> is null. On a
  server in UTC the same query yields the date.
\<close>

lemma window_passage_day_utc:
  "window_dates 0 cleaning_passage \<lparr>year = 2025, month = 0, day = 15\<rparr> \<lparr>year = 2025, month = 0, day = 15\<rparr>
   = [\<lparr>year = 2025, month = 0, day = 15\<rparr>]"
  by (simp add: window_dates_def month_index_def january_passages in_range_def utc_midnight_def
      local_time_def)

lemma window_passage_day_paris:
  "window_dates 60 cleaning_passage \<lparr>year = 2025, month = 0, day = 15\<rparr> \<lparr>year = 2025, month = 0, day = 15\<rparr>
   = []"
  by (simp add: window_dates_def month_index_def january_passages in_range_def utc_midnight_def
      local_time_def)

lemma passage_on_start_date_dropped_east_of_utc:
  "available_dates 0 example_state passage_day_query =
     Some \<lparr>http_status = 200, body = FullAndAllowed [''2025-01-15''] (Some [''2025-01-15''])\<rparr>
   \<and> available_dates 60 example_state passage_day_query =
     Some \<lparr>http_status = 200, body = FullAndAllowed [''2025-01-15''] None\<rparr>"
proof -
  let ?q = "passage_day_query"
  let ?d = "\<lparr>year = 2025, month = 0, day = 15\<rparr>"
  have a: "startDate ?q = Some ''2025-01-15''" and b: "endDate ?q = Some ''2025-01-15''"
    and c: "serviceType ?q = Some ''cleaning''" "city ?q = None"
    by (simp_all add: passage_day_query_def)
  have d: "next_month_has_day ?d \<or> month_index ?d \<le> month_index ?d" by simp
  have r: "resolve_passage example_state (serviceType ?q) (city ?q) = Some cleaning_passage"
    by (simp add: c cleaning_resolved)
  have utc: "(0::int) \<le> 0" "(0::int) < 1440" and paris: "(0::int) \<le> 60" "(60::int) < 1440"
    by simp_all
  from available_dates_window [OF a b parse_jan15 parse_jan15 d r cleaning_passage_valid utc]
  obtain allowed where l: "distinct allowed" "set allowed = {''2025-01-15''}"
    and res: "available_dates 0 example_state ?q =
              Some \<lparr>http_status = 200,
                    body = FullAndAllowed [''2025-01-15'']
                      (if allowed = [] then None else Some allowed)\<rparr>"
    by (auto simp: window_passage_day_utc format_jan15 c full_passage_day)
  have "allowed = [''2025-01-15'']" using l by (rule distinct_single)
  with res have one: "available_dates 0 example_state ?q =
     Some \<lparr>http_status = 200, body = FullAndAllowed [''2025-01-15''] (Some [''2025-01-15''])\<rparr>"
    by simp
  from available_dates_window [OF a b parse_jan15 parse_jan15 d r cleaning_passage_valid paris]
  obtain allowed' where "set allowed' = {}"
    and "available_dates 60 example_state ?q =
              Some \<lparr>http_status = 200,
                    body = FullAndAllowed [''2025-01-15'']
                      (if allowed' = [] then None else Some allowed')\<rparr>"
    by (auto simp: window_passage_day_paris c full_passage_day)
  then have "available_dates 60 example_state ?q =
     Some \<lparr>http_status = 200, body = FullAndAllowed [''2025-01-15''] None\<rparr>"
    by simp
  with one show ?thesis by simp
qed

text \<open>
  On a server five hours behind UTC (New York in winter) midnight UTC of the 15th is
  19:00 of the 14th on the local clock, and the passage date 2025-01-15 begins at 05:00
  UTC of the 15th, after the end bound of a query that ends on the 15th: the date is
  left out as well.
\<close>

lemma passage_on_end_date_dropped_west_of_utc:
  "available_dates (- 300) example_state passage_day_query =
     Some \<lparr>http_status = 200, body = FullAndAllowed [''2025-01-15''] None\<rparr>"
proof -
  let ?q = "passage_day_query"
  let ?d = "\<lparr>year = 2025, month = 0, day = 15\<rparr>"
  let ?c = "\<lparr>year = 2025, month = 0, day = 14\<rparr>"
  have a: "startDate ?q = Some ''2025-01-15''" and b: "endDate ?q = Some ''2025-01-15''"
    and c: "serviceType ?q = Some ''cleaning''" "city ?q = None"
    by (simp_all add: passage_day_query_def)
  have r: "resolve_passage example_state (serviceType ?q) (city ?q) = Some cleaning_passage"
    by (simp add: c cleaning_resolved)
  have ld: "local_date (- 300) ?d = ?c"
    by (simp add: local_date_def shift_days_def prev_day_def)
  have dn: "day_number ?d = day_number ?c + 1" by (simp add: day_number_def)
  have c1: "local_time (- 300) ?c (local_minutes (- 300)) \<le> utc_midnight ?d"
    by (simp add: local_time_def local_minutes_def utc_midnight_def dn)
  have v: "valid_date ?c" by (simp add: valid_date_def DaysInMonth_def)
  have h: "next_month_has_day ?c" by (simp add: next_month_has_day_def DaysInMonth_def leap_def)
  have nxt: "next_month_start ?c = first_of_month 24301"
    using next_month_start_valid [OF v h] by (simp add: month_index_def)
  have feb: "day_number (first_of_month 24301) = day_number ?c + 18"
    by (simp add: first_of_month_def day_number_def days_before_month_def)
  have c2: "\<not> local_time (- 300) (first_of_month 24301) (local_minutes (- 300)) \<le> utc_midnight ?d"
    by (simp add: local_time_def local_minutes_def utc_midnight_def dn feb)
  have stop: "month_loop (- 300) cleaning_passage ?d ?d (first_of_month 24301) acc = Some acc" for acc
    using c2 by (subst month_loop.simps) simp
  have m0: "(0::int) \<le> 0" "(0::int) \<le> 11" by simp_all
  have vp: "valid_passage (Some 3) (Some 3)" by (simp add: valid_passage_def)
  have jan: "weekday_dates 2025 0 3 3 = [\<lparr>year = 2025, month = 0, day = 15\<rparr>]"
    by (simp add: weekday_dates_def nth_occurrence_example)
  have late: "\<not> in_range (- 300) ?d ?d ?d"
    by (simp add: in_range_def local_time_def utc_midnight_def)
  have p1: "passage_step (- 300) (passage1_week cleaning_passage) (passage1_day cleaning_passage)
              2025 0 ?d ?d [] = Some []"
    using late by (simp add: cleaning_passage_def passage_step_valid [OF vp m0] jan add_dates_def)
  have p2: "passage_step (- 300) (passage2_week cleaning_passage) (passage2_day cleaning_passage)
              2025 0 ?d ?d [] = Some []"
    by (simp add: cleaning_passage_def passage_step_def)
  have "month_loop (- 300) cleaning_passage ?d ?d ?c [] = Some []"
    by (subst month_loop.simps) (simp add: c1 nxt stop p1 p2 getFullYear_def getMonth_def)
  then have "allowed_dates (- 300) example_state ?q = Some []"
    using a b r by (simp add: allowed_dates_def parse_jan15 ld)
  then show ?thesis
    using a b c by (simp add: available_dates_def truthy_def full_passage_day)
qed

text \<open>
  The step to the next month. The loop over the months steps with
  \<^verbatim>\<open>setMonth(getMonth() + 1)\<close> before \<^verbatim>\<open>setDate(1)\<close>: from January 31st the month
  after is March, so the passage dates of February are never computed for a range that
  starts on January 31st and reaches February. From July 31st the month after is August:
  a start on the 31st is harmless when the next month has 31 days.
\<close>

lemma next_month_start_skips_february:
  "next_month_start \<lparr>year = 2025, month = 0, day = 31\<rparr> = \<lparr>year = 2025, month = 2, day = 1\<rparr>"
proof -
  have "MakeDay 2025 1 31 = following_month 2025 1 (31 - DaysInMonth 2025 1)"
    by (rule MakeDay_following_month) (simp_all add: DaysInMonth_def leap_def)
  then have "setMonth \<lparr>year = 2025, month = 0, day = 31\<rparr> 1 = \<lparr>year = 2025, month = 2, day = 3\<rparr>"
    by (simp add: setMonth_def following_month_def DaysInMonth_def leap_def)
  moreover have "setDate \<lparr>year = 2025, month = 2, day = 3\<rparr> 1 = \<lparr>year = 2025, month = 2, day = 1\<rparr>"
    by (rule setDate_in_month) (simp_all add: DaysInMonth_def)
  ultimately show ?thesis by (simp add: next_month_start_def getMonth_def)
qed

lemma next_month_has_day_examples:
  "next_month_has_day \<lparr>year = 2025, month = 6, day = 31\<rparr>
   \<and> \<not> next_month_has_day \<lparr>year = 2025, month = 0, day = 31\<rparr>
   \<and> next_month_start \<lparr>year = 2025, month = 6, day = 31\<rparr> = \<lparr>year = 2025, month = 7, day = 1\<rparr>"
proof -
  have h: "next_month_has_day \<lparr>year = 2025, month = 6, day = 31\<rparr>"
    by (simp add: next_month_has_day_def DaysInMonth_def)
  have v: "valid_date \<lparr>year = 2025, month = 6, day = 31\<rparr>"
    by (simp add: valid_date_def DaysInMonth_def)
  have "next_month_start \<lparr>year = 2025, month = 6, day = 31\<rparr> = \<lparr>year = 2025, month = 7, day = 1\<rparr>"
    using next_month_start_valid [OF v h] by (simp add: month_index_def first_of_month_def)
  moreover have "\<not> next_month_has_day \<lparr>year = 2025, month = 0, day = 31\<rparr>"
    by (simp add: next_month_has_day_def DaysInMonth_def leap_def)
  ultimately show ?thesis using h by simp
qed

section \<open>Payment confirmation when the date is full\<close>

lemma new_meta:
  "meta (example_session new_booking_metadata) ''type'' = Some ''booking''"
  "meta (example_session new_booking_metadata) ''bookingId'' = None"
  "meta (example_session new_booking_metadata) ''bookingName'' = Some ''Carol''"
  "meta (example_session new_booking_metadata) ''bookingEmail'' = Some ''carol@example.org''"
  "meta (example_session new_booking_metadata) ''bookingServiceType'' = Some ''cleaning''"
  "meta (example_session new_booking_metadata) ''bookingPreferredDate'' = Some ''2025-01-15''"
  by (simp_all add: meta_def example_session_def new_booking_metadata_def)

lemma example_not_ignored: "\<not> test_payment_ignored st (example_session md)"
  by (simp add: test_payment_ignored_def example_session_def)

lemma cleaning_jan15_full:
  "limit_reached
     (current_count example_state (snd (resolve_limit example_state (Some ''cleaning'')))
        (Some ''2025-01-15'') (Some ''cleaning''))
     (fst (resolve_limit example_state (Some ''cleaning'')))"
  by (simp add: cleaning_limit current_count_def cleaning_jan15_count limit_reached_def)

text \<open>
  C1, as the code has it. Take a payment confirmation that is not an ignored test
  payment and whose session carries the data of a booking to create (a name and a date,
  no booking id). Both handlers resolve the limit and count the paid bookings of the
  date when the confirmation arrives; when the count has reached the limit, the webhook
  answers 200 with the error that the date is full, changes no table, and - when SMTP
  credentials are set - sends the operator the notice that the booking was not created
  and the payment will be refunded; the payment verification answers that the date is
  full and changes nothing, without a mail.
\<close>

theorem payment_confirmation_date_full:
  assumes "stripe_configured e" "webhook_secret_configured e" "truthy sessionId"
    and "\<not> test_payment_ignored st s" "meta s ''type'' = Some ''booking''"
    and "sess_payment_status s = Some ''paid'' \<or> sess_status s = Some ''complete''"
    and "\<not> truthy (meta s ''bookingId'')"
    and "truthy (meta s ''bookingName'')" "truthy (meta s ''bookingPreferredDate'')"
    and "limit_reached
           (current_count st (snd (resolve_limit st (meta s ''bookingServiceType'')))
              (meta s ''bookingPreferredDate'') (meta s ''bookingServiceType''))
           (fst (resolve_limit st (meta s ''bookingServiceType'')))"
  shows "stripe_webhook e True (CheckoutSessionCompleted s) st =
           (Responded \<lparr>http_status = 200, body = ReceivedError DateFull\<rparr>,
            if smtp_configured e then sendMail (date_full_mail s) st else st)
         \<and> verify_payment e sessionId (Some s) st =
             (\<lparr>http_status = 200, body = Failure DateFull\<rparr>, st)"
proof -
  obtain lim useSvc where rl: "resolve_limit st (meta s ''bookingServiceType'') = (lim, useSvc)"
    by (cases "resolve_limit st (meta s ''bookingServiceType'')")
  have full: "limit_reached
      (current_count st useSvc (meta s ''bookingPreferredDate'') (meta s ''bookingServiceType'')) lim"
    using assms(10) by (simp add: rl)
  have wc: "webhook_create e s st =
              (Responded \<lparr>http_status = 200, body = ReceivedError DateFull\<rparr>,
               if smtp_configured e then sendMail (date_full_mail s) st else st)"
    using full by (simp add: webhook_create_def rl)
  have vc: "verify_create e s st = (\<lparr>http_status = 200, body = Failure DateFull\<rparr>, st)"
    using full by (simp add: verify_create_def rl)
  have w: "stripe_webhook e True (CheckoutSessionCompleted s) st = webhook_create e s st"
    using assms(1,2,4,5,7,8,9) by (simp add: stripe_webhook_def webhook_booking_def)
  have v: "verify_payment e sessionId (Some s) st = verify_create e s st"
    using assms(1,3,4,6,7,8,9) by (simp add: verify_payment_def)
  show ?thesis by (simp add: w v wc vc)
qed

theorem payment_confirmation_date_full_witness:
  "stripe_configured example_env \<and> webhook_secret_configured example_env \<and> truthy (Some ''cs_1'')
   \<and> \<not> test_payment_ignored example_state (example_session new_booking_metadata)
   \<and> stripe_webhook example_env True (CheckoutSessionCompleted (example_session new_booking_metadata))
        example_state =
         (Responded \<lparr>http_status = 200, body = ReceivedError DateFull\<rparr>,
          sendMail \<lparr>m_kind = DateFullNotice, m_reply_to = Some ''carol@example.org'',
                    m_name = Some ''Carol'', m_date = Some ''2025-01-15''\<rparr> example_state)
   \<and> verify_payment example_env (Some ''cs_1'') (Some (example_session new_booking_metadata))
        example_state = (\<lparr>http_status = 200, body = Failure DateFull\<rparr>, example_state)"
proof -
  let ?s = "example_session new_booking_metadata"
  have e: "stripe_configured example_env" "webhook_secret_configured example_env"
    "smtp_configured example_env"
    by (simp_all add: example_env_def)
  have t: "truthy (Some ''cs_1'')" by (simp add: truthy_def)
  have p: "sess_payment_status ?s = Some ''paid'' \<or> sess_status ?s = Some ''complete''"
    by (simp add: example_session_def)
  have i: "\<not> truthy (meta ?s ''bookingId'')" by (simp add: new_meta truthy_def)
  have n: "truthy (meta ?s ''bookingName'')" by (simp add: new_meta truthy_def)
  have d: "truthy (meta ?s ''bookingPreferredDate'')" by (simp add: new_meta truthy_def)
  have f: "limit_reached
           (current_count example_state (snd (resolve_limit example_state (meta ?s ''bookingServiceType'')))
              (meta ?s ''bookingPreferredDate'') (meta ?s ''bookingServiceType''))
           (fst (resolve_limit example_state (meta ?s ''bookingServiceType'')))"
    using cleaning_jan15_full by (simp add: new_meta)
  from payment_confirmation_date_full [OF e(1,2) t example_not_ignored new_meta(1) p i n d f]
  show ?thesis using e t example_not_ignored [of example_state new_booking_metadata]
    by (simp add: date_full_mail_def new_meta)
qed

text \<open>
  The payment verification triggers no notification when the date is full: the count has
  reached the limit, the answer says so, and no mail has been sent.
\<close>

theorem verify_payment_full_sends_no_mail:
  "limit_reached
     (current_count example_state (snd (resolve_limit example_state (Some ''cleaning'')))
        (Some ''2025-01-15'') (Some ''cleaning''))
     (fst (resolve_limit example_state (Some ''cleaning'')))
   \<and> fst (verify_payment example_env (Some ''cs_1'') (Some (example_session new_booking_metadata))
        example_state) = \<lparr>http_status = 200, body = Failure DateFull\<rparr>
   \<and> outbox (snd (verify_payment example_env (Some ''cs_1'')
        (Some (example_session new_booking_metadata)) example_state)) = []"
proof -
  let ?s = "example_session new_booking_metadata"
  have "verify_create example_env ?s example_state
        = (\<lparr>http_status = 200, body = Failure DateFull\<rparr>, example_state)"
    by (simp add: verify_create_def new_meta cleaning_limit current_count_def cleaning_jan15_count
        limit_reached_def)
  moreover have "verify_payment example_env (Some ''cs_1'') (Some ?s) example_state
        = verify_create example_env ?s example_state"
    by (simp add: verify_payment_def truthy_def example_not_ignored new_meta)
      (simp add: example_env_def example_session_def)
  moreover have "outbox example_state = []" by (simp add: example_state_def)
  ultimately show ?thesis using cleaning_jan15_full by simp
qed

theorem stripe_webhook_acknowledges_witness:
  "stripe_configured example_env \<and> webhook_secret_configured example_env
   \<and> (\<exists>r st'. stripe_webhook example_env True
          (CheckoutSessionCompleted (example_session new_booking_metadata)) example_state
            = (Responded r, st') \<and> http_status r = 200)"
  using stripe_webhook_acknowledges [of example_env
      "CheckoutSessionCompleted (example_session new_booking_metadata)" example_state]
  by (simp add: example_env_def)


section \<open>Confirming a booking that is already paid\<close>

lemma existing_meta:
  "meta (example_session existing_booking_metadata) ''type'' = Some ''booking''"
  "meta (example_session existing_booking_metadata) ''bookingId'' = Some ''1''"
  by (simp_all add: meta_def example_session_def existing_booking_metadata_def)

lemma parseInt_1: "parseInt ''1'' = Some 1"
  by (simp add: parseInt_def is_space_def is_digit_def digits_val_def digit_val_def)

text \<open>
  The payment verification does leave a paid booking alone: it answers that the payment
  was already validated, changes nothing and sends nothing.
\<close>

lemma verify_payment_already_paid:
  assumes "stripe_configured e" "truthy sessionId" "\<not> test_payment_ignored st s"
    and "sess_payment_status s = Some ''paid'' \<or> sess_status s = Some ''complete''"
    and "truthy (meta s ''bookingId'')"
    and "getBookingById st (parseInt (the (meta s ''bookingId''))) = Some b"
    and "b_payment_status b = Some ''paid''"
  shows "verify_payment e sessionId (Some s) st =
           (\<lparr>http_status = 200, body = PaymentAlreadyValidated (b_id b)\<rparr>, st)"
  using assms by (simp add: verify_payment_def verify_finish_def)

lemma update_paid_booking:
  "updateBookingStatus ''pending'' 1
     (updateBookingPayment (Some ''pi_1'') (Some ''cs_1'') ''paid'' 1 (example_state\<lparr>outbox := ms\<rparr>))
   = example_state\<lparr>outbox := ms\<rparr>"
  by (simp add: updateBookingStatus_def updateBookingPayment_def example_state_def paid_booking_def)

lemma find_paid_booking: "getBookingById (example_state\<lparr>outbox := ms\<rparr>) (Some 1) = Some paid_booking"
  by (simp add: getBookingById_def example_state_def paid_booking_def)

lemma webhook_on_paid_booking:
  "stripe_webhook example_env True (CheckoutSessionCompleted (example_session existing_booking_metadata))
     (example_state\<lparr>outbox := ms\<rparr>)
   = (Responded \<lparr>http_status = 200, body = Received\<rparr>,
      example_state\<lparr>outbox := ms @ [confirmation_mail paid_booking]\<rparr>)"
proof -
  let ?s = "example_session existing_booking_metadata"
  let ?st = "example_state\<lparr>outbox := ms\<rparr>"
  have i: "intent_or_null ?s = Some ''pi_1''" "sess_id ?s = ''cs_1''"
    by (simp_all add: intent_or_null_def example_session_def truthy_def)
  have b: "b_id paid_booking = 1" by (simp add: paid_booking_def)
  have f: "webhook_finish example_env ?s 1 (Some paid_booking) ?st
           = (Responded \<lparr>http_status = 200, body = Received\<rparr>,
              example_state\<lparr>outbox := ms @ [confirmation_mail paid_booking]\<rparr>)"
    by (simp add: webhook_finish_def find_paid_booking)
       (simp add: example_env_def sendMail_def example_state_def)
  have "webhook_booking example_env ?s ?st
        = webhook_finish example_env ?s 1 (Some paid_booking) ?st"
    by (simp add: webhook_booking_def existing_meta truthy_def parseInt_1 find_paid_booking
        Let_def b i update_paid_booking)
  moreover have "stripe_webhook example_env True (CheckoutSessionCompleted ?s) ?st
        = webhook_booking example_env ?s ?st"
    by (simp add: stripe_webhook_def example_not_ignored existing_meta)
       (simp add: example_env_def)
  ultimately show ?thesis using f by simp
qed

text \<open>
  C2, on the code. Booking 1 is pending and paid, for the session of the event. The
  webhook is invoked with that event twice in succession: both calls answer 200 and
  leave every table as it is, but each call sends the confirmation email again, so the
  second call does produce a duplicate notification.
\<close>

theorem stripe_webhook_repeats_confirmation_mail:
  "b_status paid_booking = ''pending'' \<and> b_payment_status paid_booking = Some ''paid''
   \<and> b_stripe_session_id paid_booking = Some (sess_id (example_session existing_booking_metadata))
   \<and> outbox example_state = []
   \<and> stripe_webhook example_env True
        (CheckoutSessionCompleted (example_session existing_booking_metadata)) example_state
      = (Responded \<lparr>http_status = 200, body = Received\<rparr>,
         example_state\<lparr>outbox := [confirmation_mail paid_booking]\<rparr>)
   \<and> stripe_webhook example_env True
        (CheckoutSessionCompleted (example_session existing_booking_metadata))
        (example_state\<lparr>outbox := [confirmation_mail paid_booking]\<rparr>)
      = (Responded \<lparr>http_status = 200, body = Received\<rparr>,
         example_state\<lparr>outbox := [confirmation_mail paid_booking, confirmation_mail paid_booking]\<rparr>)"
proof -
  have a: "example_state\<lparr>outbox := []\<rparr> = example_state" by (simp add: example_state_def)
  have "stripe_webhook example_env True
        (CheckoutSessionCompleted (example_session existing_booking_metadata)) example_state
      = (Responded \<lparr>http_status = 200, body = Received\<rparr>,
         example_state\<lparr>outbox := [confirmation_mail paid_booking]\<rparr>)"
    using webhook_on_paid_booking [of "[]"] by (simp add: a)
  moreover have "stripe_webhook example_env True
        (CheckoutSessionCompleted (example_session existing_booking_metadata))
        (example_state\<lparr>outbox := [confirmation_mail paid_booking]\<rparr>)
      = (Responded \<lparr>http_status = 200, body = Received\<rparr>,
         example_state\<lparr>outbox := [confirmation_mail paid_booking, confirmation_mail paid_booking]\<rparr>)"
    using webhook_on_paid_booking [of "[confirmation_mail paid_booking]"] by simp
  ultimately show ?thesis
    by (simp add: paid_booking_def example_session_def example_state_def)
qed


theorem stripe_webhook_repeats_confirmation_mail_witness:
  "length (outbox (snd (stripe_webhook example_env True
      (CheckoutSessionCompleted (example_session existing_booking_metadata))
      (example_state\<lparr>outbox := [confirmation_mail paid_booking]\<rparr>)))) = 2"
  using stripe_webhook_repeats_confirmation_mail by simp

end
